theory Spec2Isabelle
  imports Main "HOL-Library.Word"
begin

section \<open>Asset versioning and the capture loop of \<open>src/main.cpp\<close>\<close>

subsection \<open>Data model\<close>

text \<open>
  \<open>std::size_t\<close> on the only platform the program builds for (macOS, LP64) is an
  unsigned 64-bit integer; \<open>int\<close> and \<open>pid_t\<close> are 32 bits wide.
\<close>

type_synonym size_t = "64 word"

text \<open>
  A directory entry is a regular file, a directory with its direct children, or
  something else (socket, device, dangling link): for the latter both
  \<open>is_directory()\<close> and \<open>is_regular_file()\<close> are false. The order of a
  listing is the order in which \<open>std::filesystem::directory_iterator\<close> yields it.
\<close>

datatype node = RegularFile | Directory "(string \<times> node) list" | Other

type_synonym listing = "(string \<times> node) list"

text \<open>
  Everything that ends a call without a value: the exceptions of the standard
  library that the code lets escape and the failed \<open>assert\<close>. The last value,
  \<open>undefined_behaviour\<close>, is no exception: it marks the point where the code
  applies \<open>std::ranges::max\<close> to a range without elements. The code does not
  test for that case and raises nothing there; the precondition of the algorithm
  is violated, C++ defines no behaviour from there on, and the model follows the
  program no further.
\<close>

datatype error =
    filesystem_error
  | out_of_range
  | invalid_argument
  | runtime_error
  | assertion_failed
  | undefined_behaviour

fun is_directory :: "string \<times> node \<Rightarrow> bool" where
  "is_directory (n, Directory es) = True"
| "is_directory (n, RegularFile) = False"
| "is_directory (n, Other) = False"

fun is_regular_file :: "string \<times> node \<Rightarrow> bool" where
  "is_regular_file (n, RegularFile) = True"
| "is_regular_file (n, Directory es) = False"
| "is_regular_file (n, Other) = False"

text \<open>
  \<open>directory_iterator{p}\<close>: the listing of \<open>p\<close> when \<open>p\<close> is a directory,
  \<open>filesystem_error\<close> when \<open>p\<close> does not exist (\<open>None\<close>) or is not a directory.
\<close>

fun directory_iterator :: "node option \<Rightarrow> error + listing" where
  "directory_iterator (Some (Directory es)) = Inr es"
| "directory_iterator (Some RegularFile) = Inl filesystem_error"
| "directory_iterator (Some Other) = Inl filesystem_error"
| "directory_iterator None = Inl filesystem_error"

text \<open>\<open>assetsDirectory / name\<close>: the child \<open>name\<close> of the assets directory.\<close>

fun child :: "node option \<Rightarrow> string \<Rightarrow> node option" where
  "child (Some (Directory es)) name = map_of es name"
| "child (Some RegularFile) name = None"
| "child (Some Other) name = None"
| "child None name = None"

subsection \<open>Characters, \<open>std::stoi\<close> and \<open>std::to_string\<close>\<close>

definition isdigit :: "char \<Rightarrow> bool" where
  "isdigit c = (c \<in> set ''0123456789'')"

definition isspace :: "char \<Rightarrow> bool" where
  "isspace c = (c \<in> set [CHR '' '', CHR 0x09, CHR 0x0A, CHR 0x0B, CHR 0x0C, CHR 0x0D])"

definition digit_value :: "char \<Rightarrow> nat" where
  "digit_value c = of_char c - 48"

definition decimal :: "string \<Rightarrow> nat" where
  "decimal ds = foldl (\<lambda>a c. 10 * a + digit_value c) 0 ds"

definition INT_MAX :: int where
  "INT_MAX = 2147483647"

definition INT_MIN :: int where
  "INT_MIN = - 2147483648"

text \<open>
  \<open>std::stoi(s)\<close> in base 10: leading white space is skipped, one sign is accepted,
  the longest run of digits is converted and what follows it is ignored. No digit
  at all raises \<open>invalid_argument\<close>, a value outside \<open>int\<close> raises \<open>out_of_range\<close>.
\<close>

definition stoi :: "string \<Rightarrow> error + int" where
  "stoi s =
    (let t = dropWhile isspace s;
         neg = (t \<noteq> [] \<and> hd t = CHR ''-'');
         u = (if t \<noteq> [] \<and> (hd t = CHR ''-'' \<or> hd t = CHR ''+'') then tl t else t);
         ds = takeWhile isdigit u;
         v = (if neg then - int (decimal ds) else int (decimal ds))
     in if ds = [] then Inl invalid_argument
        else if v < INT_MIN \<or> INT_MAX < v then Inl out_of_range
        else Inr v)"

definition digit_char :: "nat \<Rightarrow> char" where
  "digit_char d = ''0123456789'' ! d"

text \<open>\<open>std::to_string\<close> of an unsigned value: decimal, no leading zero.\<close>

fun to_string :: "nat \<Rightarrow> string" where
  "to_string n = (if n < 10 then [digit_char n] else to_string (n div 10) @ [digit_char (n mod 10)])"

declare to_string.simps [simp del]

subsection \<open>The two resolvers\<close>

text \<open>
  The elements of a lazily transformed range are computed one after the other;
  the first one that throws ends the whole traversal.
\<close>

fun traverse :: "('a \<Rightarrow> error + 'b) \<Rightarrow> 'a list \<Rightarrow> error + 'b list" where
  "traverse f [] = Inr []"
| "traverse f (x # xs) =
    (case f x of
       Inl e \<Rightarrow> Inl e
     | Inr y \<Rightarrow> (case traverse f xs of Inl e \<Rightarrow> Inl e | Inr ys \<Rightarrow> Inr (y # ys)))"

text \<open>
  \<open>std::ranges::max\<close>: start from the first element and replace the result by every
  later element that is greater. On an empty range there is no first element: the
  algorithm reads past the end, which is undefined behaviour and not an error
  that the program reports.
\<close>

fun ranges_max :: "size_t list \<Rightarrow> error + size_t" where
  "ranges_max [] = Inl undefined_behaviour"
| "ranges_max (x # xs) = Inr (fold (\<lambda>y r. if r < y then y else r) xs x)"

text \<open>
  The characters of a prefix that stand for themselves when the prefix is spliced
  into the regular expression \<open>"^" + prefix + "([0-9]+)$"\<close>. For such a prefix (the
  program passes \<open>"ver"\<close>) the expression matches exactly prefix followed by one or
  more digits, which is what \<open>isVersion\<close> tests; the results below are stated for
  such prefixes.
\<close>

definition ordinary :: "string \<Rightarrow> bool" where
  "ordinary p = (\<forall>c \<in> set p. c \<notin> set [CHR ''^'', CHR ''$'', CHR 0x5C, CHR ''.'', CHR ''*'',
      CHR ''+'', CHR ''?'', CHR ''('', CHR '')'', CHR ''['', CHR '']'', CHR ''{'', CHR ''}'', CHR ''|''])"

definition isVersion :: "string \<Rightarrow> string \<Rightarrow> bool" where
  "isVersion versionDirectoryName filename =
    (take (length versionDirectoryName) filename = versionDirectoryName \<and>
     drop (length versionDirectoryName) filename \<noteq> [] \<and>
     list_all isdigit (drop (length versionDirectoryName) filename))"

text \<open>\<open>static_cast<std::size_t>(std::stoi(filename.substr(prefix.size())))\<close>\<close>

definition extractVersionIndex :: "string \<Rightarrow> string \<Rightarrow> error + size_t" where
  "extractVersionIndex versionDirectoryName filename =
    (case stoi (drop (length versionDirectoryName) filename) of
       Inl e \<Rightarrow> Inl e
     | Inr v \<Rightarrow> Inr (word_of_int v))"

definition findLastVersionIndex :: "node option \<Rightarrow> string \<Rightarrow> error + size_t" where
  "findLastVersionIndex assetsDirectory versionDirectoryName =
    (case directory_iterator assetsDirectory of
       Inl e \<Rightarrow> Inl e
     | Inr es \<Rightarrow>
        (case traverse (extractVersionIndex versionDirectoryName)
                (filter (isVersion versionDirectoryName) (map fst (filter is_directory es))) of
           Inl e \<Rightarrow> Inl e
         | Inr is \<Rightarrow> ranges_max is))"

text \<open>
  The folder name that \<open>findLastVersionDirectory\<close> appends to the assets directory;
  the path it returns is that child of the assets directory.
\<close>

definition findLastVersionDirectory :: "node option \<Rightarrow> string \<Rightarrow> error + string" where
  "findLastVersionDirectory assetsDirectory versionDirectoryName =
    (case findLastVersionIndex assetsDirectory versionDirectoryName of
       Inl e \<Rightarrow> Inl e
     | Inr i \<Rightarrow> Inr (versionDirectoryName @ to_string (unat i)))"

text \<open>
  The dot of \<open>.\<close> in an ECMAScript expression: any character but a line terminator.
\<close>

definition any_char :: "char \<Rightarrow> bool" where
  "any_char c = (c \<noteq> CHR 0x0A \<and> c \<noteq> CHR 0x0D)"

text \<open>
  The expression \<open>"^([0-9]+).png$"\<close>, read from the end of the name: the last three
  characters are \<open>png\<close>, the one before them is matched by the dot, and all that
  precedes is a non-empty run of digits.
\<close>

definition isImage :: "string \<Rightarrow> bool" where
  "isImage filename =
    (let n = length filename in
       5 \<le> n \<and> drop (n - 3) filename = ''png'' \<and> any_char (filename ! (n - 4)) \<and>
       list_all isdigit (take (n - 4) filename))"

text \<open>
  \<open>filename.substr(0, filename.find_first_of('.'))\<close>: the part before the first dot,
  the whole name when it has no dot (\<open>npos\<close>).
\<close>

definition extractImageIndex :: "string \<Rightarrow> error + size_t" where
  "extractImageIndex filename =
    (case stoi (takeWhile (\<lambda>c. c \<noteq> CHR ''.'') filename) of
       Inl e \<Rightarrow> Inl e
     | Inr v \<Rightarrow> Inr (word_of_int v))"

definition findLastImageIndex :: "node option \<Rightarrow> string \<Rightarrow> error + size_t" where
  "findLastImageIndex assetsDirectory versionDirectoryName =
    (case findLastVersionDirectory assetsDirectory versionDirectoryName of
       Inl e \<Rightarrow> Inl e
     | Inr folder \<Rightarrow>
        (case directory_iterator (child assetsDirectory folder) of
           Inl e \<Rightarrow> Inl e
         | Inr es \<Rightarrow>
            (case traverse extractImageIndex
                    (filter isImage (map fst (filter is_regular_file es))) of
               Inl e \<Rightarrow> Inl e
             | Inr is \<Rightarrow> ranges_max is)))"

subsection \<open>Collaborators of the capture loop\<close>

definition SAFARI_PROCESS_NAME :: string where
  "SAFARI_PROCESS_NAME = ''Safari''"

definition MAX_PROCESS_CHUNK :: nat where
  "MAX_PROCESS_CHUNK = 2048"

text \<open>
  The process table as \<open>proc_listpids\<close> and \<open>proc_pidinfo\<close> report it: each
  process identifier with its name, \<open>None\<close> where \<open>proc_pidinfo\<close> does not
  deliver the full record. Only the first \<open>MAX_PROCESS_CHUNK\<close> identifiers fit
  into the buffer.
\<close>

type_synonym process_table = "(int \<times> string option) list"

fun pid_loop :: "process_table \<Rightarrow> error + int" where
  "pid_loop [] = Inl runtime_error"
| "pid_loop ((pid, info) # rest) =
    (case info of
       None \<Rightarrow> pid_loop rest
     | Some pbi_name \<Rightarrow> if SAFARI_PROCESS_NAME = pbi_name then Inr pid else pid_loop rest)"

definition findSafariPID :: "process_table \<Rightarrow> error + int" where
  "findSafariPID procs = pid_loop (take MAX_PROCESS_CHUNK procs)"

text \<open>
  \<open>SaveCGImageToPNG\<close>: false for a null image, false when no image destination
  can be created, otherwise what finalizing the destination reports.
\<close>

definition SaveCGImageToPNG :: "bool \<Rightarrow> bool \<Rightarrow> bool \<Rightarrow> bool" where
  "SaveCGImageToPNG valid created success =
    (if \<not> valid then False else if \<not> created then False else success)"

text \<open>
  \<open>std::filesystem::create_directory\<close> for a child of the assets directory: true
  when the directory is made, false when a directory of that name is already
  there, \<open>filesystem_error\<close> when the name is taken by something else or the
  operating system refuses (\<open>permitted\<close> is false).
\<close>

definition create_directory :: "bool \<Rightarrow> node option \<Rightarrow> string \<Rightarrow> error + bool \<times> listing" where
  "create_directory permitted assetsDirectory name =
    (case assetsDirectory of
       Some (Directory es) \<Rightarrow>
        (case map_of es name of
           None \<Rightarrow> if permitted then Inr (True, es @ [(name, Directory [])]) else Inl filesystem_error
         | Some (Directory sub) \<Rightarrow> Inr (False, es)
         | Some RegularFile \<Rightarrow> Inl filesystem_error
         | Some Other \<Rightarrow> Inl filesystem_error)
     | Some RegularFile \<Rightarrow> Inl filesystem_error
     | Some Other \<Rightarrow> Inl filesystem_error
     | None \<Rightarrow> Inl filesystem_error)"

text \<open>A finalized image destination leaves a regular file of the given name in the folder.\<close>

fun add_file :: "string \<Rightarrow> node \<Rightarrow> node" where
  "add_file name (Directory es) =
    (if name \<in> fst ` set es then Directory es else Directory (es @ [(name, RegularFile)]))"
| "add_file name RegularFile = RegularFile"
| "add_file name Other = Other"

definition write_file :: "listing \<Rightarrow> string \<Rightarrow> string \<Rightarrow> listing" where
  "write_file es folder name =
    map (\<lambda>(n, nd). if n = folder then (n, add_file name nd) else (n, nd)) es"

subsection \<open>\<open>main\<close>\<close>

record window =
  ownerPID :: int
  windowName :: "string option"
  cstring :: bool
  windowNumber :: nat

text \<open>
  What one pass of the outer loop meets: the window list of that moment, for the
  frame taken whether the image destination can be created and whether it
  finalizes, and the key that \<open>cv::waitKey\<close> returns. The frame is taken to be a
  valid image: the code hands it to \<open>CGImageToCVMat\<close> unchecked, and what the
  libraries do with a null reference there is not in this source.
\<close>

record tick =
  windowInfos :: "window list"
  destination :: bool
  finalized :: bool
  pressed :: int

record state =
  assets :: listing
  newVersionDirectoryName :: string
  imageIndex :: size_t
  safariPID :: int
  keyCode :: int

definition title :: string where
  "title = ''Poker Now - Poker with Friends''"

text \<open>The body of the \<open>for\<close> loop from the title comparison on: lines 168 to 180.\<close>

definition capture :: "tick \<Rightarrow> state \<Rightarrow> state" where
  "capture t s =
    (let i = imageIndex s + 1;
         file = to_string (unat i) @ ''.png''
     in s\<lparr>assets := (if SaveCGImageToPNG True (destination t) (finalized t)
                      then write_file (assets s) (newVersionDirectoryName s) file
                      else assets s),
          imageIndex := i,
          keyCode := pressed t\<rparr>)"

fun windows_loop :: "tick \<Rightarrow> state \<Rightarrow> window list \<Rightarrow> state" where
  "windows_loop t s [] = s"
| "windows_loop t s (w # ws) =
    (if ownerPID w \<noteq> safariPID s then windows_loop t s ws
     else case windowName w of
            None \<Rightarrow> windows_loop t s ws
          | Some nm \<Rightarrow>
              if \<not> cstring w then windows_loop t s ws
              else if nm \<noteq> title then windows_loop t s ws
              else capture t s)"

text \<open>
  How far a run has come when the given passes are used up: still in the loop,
  returned from \<open>main\<close> with a status, or ended by an uncaught exception or a
  failed assertion with the assets directory as it is at that moment. A run that
  reaches \<open>undefined_behaviour\<close> is recorded in the same way, as followed no
  further.
\<close>

datatype outcome = Running state | Returned int state | Aborted error "node option"

fun do_while :: "state \<Rightarrow> tick list \<Rightarrow> outcome" where
  "do_while s [] = Running s"
| "do_while s (t # ts) =
    (let s' = windows_loop t s (windowInfos t)
     in if keyCode s' = 113 then Returned 0 s' else do_while s' ts)"

definition versionDirectoryName :: string where
  "versionDirectoryName = ''ver''"

text \<open>
  \<open>main\<close> on the assets directory \<open>fs\<close>. The \<open>assert\<close> is taken as compiled in (the
  source does not define \<open>NDEBUG\<close>), so its argument is evaluated.
\<close>

definition main :: "node option \<Rightarrow> process_table \<Rightarrow> bool \<Rightarrow> tick list \<Rightarrow> outcome" where
  "main fs procs permitted ticks =
    (case findLastVersionIndex fs versionDirectoryName of
       Inl e \<Rightarrow> Aborted e fs
     | Inr versionIndex \<Rightarrow>
    (case findLastImageIndex fs versionDirectoryName of
       Inl e \<Rightarrow> Aborted e fs
     | Inr imageIndex0 \<Rightarrow>
    (let name = versionDirectoryName @ to_string (unat (versionIndex + 1)) in
     case create_directory permitted fs name of
       Inl e \<Rightarrow> Aborted e fs
     | Inr (created, es) \<Rightarrow>
        if \<not> created then Aborted assertion_failed (Some (Directory es))
        else
          (case findSafariPID procs of
             Inl e \<Rightarrow> Aborted e (Some (Directory es))
           | Inr pid \<Rightarrow>
               do_while \<lparr>assets = es, newVersionDirectoryName = name,
                          imageIndex = imageIndex0, safariPID = pid, keyCode = - 1\<rparr> ticks))))"

section \<open>Auxiliary facts\<close>

subsection \<open>Digits and decimal notation\<close>

lemma isdigit_cases:
  "isdigit c \<Longrightarrow> c = CHR ''0'' \<or> c = CHR ''1'' \<or> c = CHR ''2'' \<or> c = CHR ''3'' \<or> c = CHR ''4''
     \<or> c = CHR ''5'' \<or> c = CHR ''6'' \<or> c = CHR ''7'' \<or> c = CHR ''8'' \<or> c = CHR ''9''"
  by (simp add: isdigit_def)

lemma digit_value_less: "isdigit c \<Longrightarrow> digit_value c < 10"
  by (drule isdigit_cases) (auto simp: digit_value_def)

lemma digit_char_value: "isdigit c \<Longrightarrow> digit_char (digit_value c) = c"
  by (drule isdigit_cases) (auto simp: digit_value_def digit_char_def)

lemma digit_value_zero: "isdigit c \<Longrightarrow> digit_value c = 0 \<Longrightarrow> c = CHR ''0''"
  by (drule isdigit_cases) (auto simp: digit_value_def)

lemma isdigit_digit_char: "d < 10 \<Longrightarrow> isdigit (digit_char d)"
proof -
  assume "d < 10"
  then have "d \<in> {0, 1, 2, 3, 4, 5, 6, 7, 8, 9}" by auto
  then show ?thesis by (auto simp: isdigit_def digit_char_def)
qed

lemma digit_value_char: "d < 10 \<Longrightarrow> digit_value (digit_char d) = d"
proof -
  assume "d < 10"
  then have "d \<in> {0, 1, 2, 3, 4, 5, 6, 7, 8, 9}" by auto
  then show ?thesis by (auto simp: digit_value_def digit_char_def)
qed

lemma isdigit_not_space: "isdigit c \<Longrightarrow> \<not> isspace c"
  by (drule isdigit_cases) (auto simp: isspace_def)

lemma isdigit_not_sign: "isdigit c \<Longrightarrow> c \<noteq> CHR ''-'' \<and> c \<noteq> CHR ''+'' \<and> c \<noteq> CHR ''.''"
  by (drule isdigit_cases) auto

lemma decimal_snoc: "decimal (ds @ [c]) = 10 * decimal ds + digit_value c"
  by (simp add: decimal_def)

lemma to_string_nonempty: "to_string n \<noteq> []"
  by (subst to_string.simps) simp

lemma to_string_digits: "list_all isdigit (to_string n)"
proof (induction n rule: to_string.induct)
  case (1 n)
  show ?case
  proof (cases "n < 10")
    case True
    then show ?thesis by (subst to_string.simps) (simp add: isdigit_digit_char)
  next
    case False
    then show ?thesis using 1 by (subst to_string.simps) (simp add: isdigit_digit_char)
  qed
qed

lemma decimal_to_string: "decimal (to_string n) = n"
proof (induction n rule: to_string.induct)
  case (1 n)
  show ?case
  proof (cases "n < 10")
    case True
    then show ?thesis by (subst to_string.simps) (simp add: decimal_def digit_value_char)
  next
    case False
    then show ?thesis using 1
      by (subst to_string.simps) (simp add: decimal_snoc digit_value_char)
  qed
qed

lemma foldl_decimal_ge: "a \<le> foldl (\<lambda>a c. 10 * a + digit_value c) a ds"
proof (induction ds arbitrary: a)
  case Nil
  then show ?case by simp
next
  case (Cons c ds)
  have "a \<le> 10 * a + digit_value c" by simp
  also have "\<dots> \<le> foldl (\<lambda>a c. 10 * a + digit_value c) (10 * a + digit_value c) ds"
    by (rule Cons.IH)
  finally show ?case by simp
qed

lemma decimal_pos: "isdigit c \<Longrightarrow> c \<noteq> CHR ''0'' \<Longrightarrow> 0 < decimal (c # ds)"
proof -
  assume d: "isdigit c" and nz: "c \<noteq> CHR ''0''"
  have "0 < digit_value c" using d nz digit_value_zero by fastforce
  moreover have "digit_value c \<le> decimal (c # ds)"
    using foldl_decimal_ge [of "digit_value c" ds] by (simp add: decimal_def)
  ultimately show ?thesis by simp
qed

lemma to_string_decimal:
  "ds \<noteq> [] \<Longrightarrow> list_all isdigit ds \<Longrightarrow> ds = ''0'' \<or> hd ds \<noteq> CHR ''0'' \<Longrightarrow> to_string (decimal ds) = ds"
proof (induction ds rule: rev_induct)
  case Nil
  then show ?case by simp
next
  case (snoc c xs)
  have dc: "isdigit c" using snoc.prems(2) by simp
  show ?case
  proof (cases "xs = []")
    case True
    then show ?thesis using dc
      by (subst to_string.simps) (simp add: decimal_def digit_value_less digit_char_value)
  next
    case False
    then obtain x xs' where xs: "xs = x # xs'" by (cases xs) auto
    have hx: "x \<noteq> CHR ''0''" using snoc.prems(3) xs by auto
    have dx: "list_all isdigit xs" using snoc.prems(2) by simp
    then have "isdigit x" using xs by simp
    then have pos: "0 < decimal xs" using hx xs decimal_pos by simp
    have ih: "to_string (decimal xs) = xs" using snoc.IH False dx hx xs by simp
    have "\<not> decimal (xs @ [c]) < 10" using pos by (simp add: decimal_snoc)
    moreover have "decimal (xs @ [c]) div 10 = decimal xs"
      using digit_value_less [OF dc] by (simp add: decimal_snoc)
    moreover have "decimal (xs @ [c]) mod 10 = digit_value c"
      using digit_value_less [OF dc] by (simp add: decimal_snoc)
    ultimately show ?thesis using ih dc
      by (subst to_string.simps) (simp add: digit_char_value)
  qed
qed

lemma stoi_digits:
  assumes "ds \<noteq> []" "list_all isdigit ds" "rest = [] \<or> \<not> isdigit (hd rest)"
  shows "stoi (ds @ rest) =
    (if int (decimal ds) \<le> INT_MAX then Inr (int (decimal ds)) else Inl out_of_range)"
proof -
  obtain d ds' where ds: "ds = d # ds'" using assms(1) by (cases ds) auto
  have d: "isdigit d" using assms(2) ds by simp
  have 1: "dropWhile isspace (ds @ rest) = ds @ rest"
    using ds isdigit_not_space [OF d] by simp
  have 2: "takeWhile isdigit (ds @ rest) = ds"
  proof (cases rest)
    case Nil
    then show ?thesis using assms(2) by (simp add: list_all_iff)
  next
    case (Cons r rs)
    then show ?thesis using assms(2,3) by (simp add: list_all_iff takeWhile_append2)
  qed
  have 3: "hd (ds @ rest) = d" "ds @ rest \<noteq> []" using ds by simp_all
  have 4: "\<not> int (decimal ds) < INT_MIN" by (simp add: INT_MIN_def)
  show ?thesis
    using isdigit_not_sign [OF d] assms(1) 4 by (simp add: stoi_def Let_def 1 2 3)
qed

lemma unat_index: "int n \<le> INT_MAX \<Longrightarrow> unat (word_of_int (int n) :: size_t) = n"
  by (simp add: INT_MAX_def unat_of_nat)

subsection \<open>Traversal and maximum\<close>

lemma traverse_total: "(\<And>x. x \<in> set xs \<Longrightarrow> f x = Inr (g x)) \<Longrightarrow> traverse f xs = Inr (map g xs)"
  by (induction xs) auto

lemma fold_max_word: "fold (\<lambda>y r. if r < y then y else r) xs (x :: size_t) = Max (set (x # xs))"
proof -
  have "(\<lambda>y r :: size_t. if r < y then y else r) = max" by (intro ext) (auto simp: max_def)
  then show ?thesis unfolding Max.set_eq_fold by simp
qed

lemma ranges_max_Max: "xs \<noteq> [] \<Longrightarrow> ranges_max xs = Inr (Max (set xs))"
proof (cases xs)
  case Nil
  assume "xs \<noteq> []"
  then show ?thesis using Nil by simp
next
  case (Cons y ys)
  then show ?thesis by (simp only: ranges_max.simps fold_max_word)
qed

lemma unat_Max: "finite A \<Longrightarrow> A \<noteq> {} \<Longrightarrow> unat (Max A :: size_t) = Max (unat ` A)"
  by (rule mono_Max_commute) (auto simp: mono_def word_le_nat_alt)

subsection \<open>Which names the resolvers keep\<close>

lemma isVersion_iff:
  "isVersion p name \<longleftrightarrow> (\<exists>ds. name = p @ ds \<and> ds \<noteq> [] \<and> list_all isdigit ds)"
proof
  assume v: "isVersion p name"
  have "name = p @ drop (length p) name"
    using v unfolding isVersion_def by (metis append_take_drop_id)
  then show "\<exists>ds. name = p @ ds \<and> ds \<noteq> [] \<and> list_all isdigit ds"
    using v by (auto simp: isVersion_def)
next
  assume "\<exists>ds. name = p @ ds \<and> ds \<noteq> [] \<and> list_all isdigit ds"
  then show "isVersion p name" by (auto simp: isVersion_def)
qed

lemma is_directory_iff: "is_directory (n, nd) \<longleftrightarrow> (\<exists>sub. nd = Directory sub)"
  by (cases nd) auto

lemma is_regular_file_iff: "is_regular_file (n, nd) \<longleftrightarrow> nd = RegularFile"
  by (cases nd) auto

lemma directory_names:
  "n \<in> set (map fst (filter is_directory es)) \<longleftrightarrow> (\<exists>sub. (n, Directory sub) \<in> set es)"
  by (induction es) (auto simp: is_directory_iff)

lemma regular_file_names:
  "n \<in> set (map fst (filter is_regular_file es)) \<longleftrightarrow> (n, RegularFile) \<in> set es"
  by (induction es) (auto simp: is_regular_file_iff)

lemma version_names:
  "name \<in> set (filter (isVersion p) (map fst (filter is_directory es))) \<longleftrightarrow>
     (\<exists>ds sub. name = p @ ds \<and> ds \<noteq> [] \<and> list_all isdigit ds \<and> (p @ ds, Directory sub) \<in> set es)"
  unfolding set_filter mem_Collect_eq directory_names isVersion_iff by blast

lemma isImage_iff:
  "isImage name \<longleftrightarrow> (\<exists>ds c. name = ds @ c # ''png'' \<and> ds \<noteq> [] \<and> list_all isdigit ds \<and> any_char c)"
proof
  assume i: "isImage name"
  let ?n = "length name"
  have n: "5 \<le> ?n" and png: "drop (?n - 3) name = ''png''" and c: "any_char (name ! (?n - 4))"
    and ds: "list_all isdigit (take (?n - 4) name)"
    using i by (simp_all add: isImage_def Let_def)
  have "?n - 4 < ?n" using n by simp
  then have "name = take (?n - 4) name @ name ! (?n - 4) # drop (Suc (?n - 4)) name"
    by (rule id_take_nth_drop)
  moreover have "Suc (?n - 4) = ?n - 3" using n by simp
  ultimately have "name = take (?n - 4) name @ name ! (?n - 4) # ''png''" using png by simp
  moreover have "take (?n - 4) name \<noteq> []" using n by auto
  ultimately show "\<exists>ds c. name = ds @ c # ''png'' \<and> ds \<noteq> [] \<and> list_all isdigit ds \<and> any_char c"
    using c ds by blast
next
  assume "\<exists>ds c. name = ds @ c # ''png'' \<and> ds \<noteq> [] \<and> list_all isdigit ds \<and> any_char c"
  then obtain ds c where nm: "name = ds @ c # ''png''" and ne: "ds \<noteq> []"
    and d: "list_all isdigit ds" and c: "any_char c" by blast
  have len: "length name = length ds + 4" using nm by simp
  have "Suc 0 \<le> length ds" using ne by (cases ds) auto
  then show "isImage name" using d c
    by (simp add: isImage_def Let_def len) (simp add: nm nth_append)
qed

lemma image_names:
  "name \<in> set (filter isImage (map fst (filter is_regular_file es))) \<longleftrightarrow>
     (\<exists>ds c. name = ds @ c # ''png'' \<and> ds \<noteq> [] \<and> list_all isdigit ds \<and> any_char c \<and>
        (ds @ c # ''png'', RegularFile) \<in> set es)"
  unfolding set_filter mem_Collect_eq regular_file_names isImage_iff by blast

lemma extractVersionIndex_digits:
  "ds \<noteq> [] \<Longrightarrow> list_all isdigit ds \<Longrightarrow> int (decimal ds) \<le> INT_MAX \<Longrightarrow>
     extractVersionIndex p (p @ ds) = Inr (word_of_int (int (decimal ds)))"
  using stoi_digits [of ds "[]"] by (simp add: extractVersionIndex_def)

lemma takeWhile_stem: "list_all isdigit ds \<Longrightarrow> takeWhile (\<lambda>c. c \<noteq> CHR ''.'') (ds @ ''.png'') = ds"
  using isdigit_not_sign by (simp add: list_all_iff takeWhile_append2)

lemma extractImageIndex_digits:
  "ds \<noteq> [] \<Longrightarrow> list_all isdigit ds \<Longrightarrow> int (decimal ds) \<le> INT_MAX \<Longrightarrow>
     extractImageIndex (ds @ ''.png'') = Inr (word_of_int (int (decimal ds)))"
  using stoi_digits [of ds "[]"] by (simp add: extractImageIndex_def takeWhile_stem)

lemma resolve_max:
  assumes ne: "names \<noteq> []"
    and f: "\<And>x. x \<in> set names \<Longrightarrow> f x = Inr (word_of_int (int (g x)))"
    and r: "\<And>x. x \<in> set names \<Longrightarrow> int (g x) \<le> INT_MAX"
  shows "\<exists>w. (case traverse f names of Inl e \<Rightarrow> Inl e | Inr is \<Rightarrow> ranges_max is) = Inr w \<and>
             unat w \<in> g ` set names \<and> (\<forall>x \<in> set names. g x \<le> unat w)"
proof -
  let ?h = "\<lambda>x. word_of_int (int (g x)) :: size_t"
  have t: "traverse f names = Inr (map ?h names)" using f by (rule traverse_total)
  have m: "ranges_max (map ?h names) = Inr (Max (set (map ?h names)))"
    using ne by (intro ranges_max_Max) simp
  have "unat (Max (?h ` set names)) = Max (unat ` ?h ` set names)"
    using ne by (intro unat_Max) simp_all
  also have "unat ` ?h ` set names = g ` set names"
  proof -
    have "unat (?h x) = g x" if "x \<in> set names" for x using r [OF that] by (rule unat_index)
    then show ?thesis by (simp add: image_image cong: image_cong)
  qed
  finally have u: "unat (Max (?h ` set names)) = Max (g ` set names)" .
  have "Max (g ` set names) \<in> g ` set names" using ne by (intro Max_in) simp_all
  moreover have "\<forall>x \<in> set names. g x \<le> Max (g ` set names)" by simp
  ultimately show ?thesis using t m u by simp
qed

lemma ordinary_ver: "ordinary ''ver''"
  by (simp add: ordinary_def)

lemma extractVersionIndex_stoi:
  "ds \<noteq> [] \<Longrightarrow> list_all isdigit ds \<Longrightarrow>
     extractVersionIndex p (p @ ds) =
       (if int (decimal ds) \<le> INT_MAX then Inr (word_of_int (int (decimal ds))) else Inl out_of_range)"
  using stoi_digits [of ds "[]"] by (simp add: extractVersionIndex_def)

lemma decimal_2147483648: "decimal ''2147483648'' = 2147483648"
  by (simp add: decimal_def digit_value_def)

subsection \<open>The maximum over the version directories\<close>

lemma version_index_resolved:
  assumes ex: "\<exists>ds sub. ds \<noteq> [] \<and> list_all isdigit ds \<and> (p @ ds, Directory sub) \<in> set es"
    and rng: "\<forall>ds sub. ds \<noteq> [] \<and> list_all isdigit ds \<and> (p @ ds, Directory sub) \<in> set es
                \<longrightarrow> int (decimal ds) \<le> INT_MAX"
  shows "\<exists>w. findLastVersionIndex (Some (Directory es)) p = Inr w \<and>
           (\<exists>ds sub. ds \<noteq> [] \<and> list_all isdigit ds \<and> (p @ ds, Directory sub) \<in> set es \<and>
              unat w = decimal ds) \<and>
           (\<forall>ds sub. ds \<noteq> [] \<and> list_all isdigit ds \<and> (p @ ds, Directory sub) \<in> set es
              \<longrightarrow> decimal ds \<le> unat w)"
proof -
  let ?names = "filter (isVersion p) (map fst (filter is_directory es))"
  let ?g = "\<lambda>name. decimal (drop (length p) name)"
  have ne: "?names \<noteq> []"
  proof -
    obtain ds sub where "ds \<noteq> []" "list_all isdigit ds" "(p @ ds, Directory sub) \<in> set es"
      using ex by blast
    then have "p @ ds \<in> set ?names" unfolding version_names by blast
    then show ?thesis by (metis empty_iff empty_set)
  qed
  have f: "extractVersionIndex p x = Inr (word_of_int (int (?g x)))" and r: "int (?g x) \<le> INT_MAX"
    if mem: "x \<in> set ?names" for x
  proof -
    obtain ds sub where x: "x = p @ ds" and d: "ds \<noteq> []" "list_all isdigit ds"
      and m: "(p @ ds, Directory sub) \<in> set es"
      using mem unfolding version_names by blast
    show "int (?g x) \<le> INT_MAX" using rng x d m by auto
    then show "extractVersionIndex p x = Inr (word_of_int (int (?g x)))"
      using x d by (simp add: extractVersionIndex_digits)
  qed
  obtain w where w: "(case traverse (extractVersionIndex p) ?names of Inl e \<Rightarrow> Inl e | Inr is \<Rightarrow> ranges_max is) = Inr w"
    and att: "unat w \<in> ?g ` set ?names" and ub: "\<forall>x \<in> set ?names. ?g x \<le> unat w"
    using resolve_max [of ?names "extractVersionIndex p" ?g, OF ne f r] by blast
  have 1: "findLastVersionIndex (Some (Directory es)) p = Inr w"
    using w by (simp add: findLastVersionIndex_def)
  obtain x where "x \<in> set ?names" and xw: "unat w = ?g x" using att by blast
  then obtain ds sub where "x = p @ ds" "ds \<noteq> []" "list_all isdigit ds" "(p @ ds, Directory sub) \<in> set es"
    unfolding version_names by blast
  then have 2: "\<exists>ds sub. ds \<noteq> [] \<and> list_all isdigit ds \<and> (p @ ds, Directory sub) \<in> set es \<and> unat w = decimal ds"
    using xw by auto
  have 3: "decimal ds \<le> unat w"
    if h: "ds \<noteq> []" "list_all isdigit ds" "(p @ ds, Directory sub) \<in> set es" for ds sub
  proof -
    have "p @ ds \<in> set ?names" using h unfolding version_names by blast
    then have "?g (p @ ds) \<le> unat w" using ub by blast
    then show ?thesis by simp
  qed
  show ?thesis using 1 2 3 by blast
qed

subsection \<open>The maximum over the image files\<close>

lemma image_index_resolved:
  assumes ex: "\<exists>ds. ds \<noteq> [] \<and> list_all isdigit ds \<and> (ds @ ''.png'', RegularFile) \<in> set files"
    and rng: "\<forall>ds. ds \<noteq> [] \<and> list_all isdigit ds \<and> (ds @ ''.png'', RegularFile) \<in> set files
                \<longrightarrow> int (decimal ds) \<le> INT_MAX"
    and dot: "\<forall>ds c. ds \<noteq> [] \<and> list_all isdigit ds \<and> c \<noteq> CHR ''.''
                \<longrightarrow> (ds @ c # ''png'', RegularFile) \<notin> set files"
  shows "\<exists>w. (case traverse extractImageIndex (filter isImage (map fst (filter is_regular_file files))) of
                Inl e \<Rightarrow> Inl e | Inr is \<Rightarrow> ranges_max is) = Inr w \<and>
           (\<exists>ds. ds \<noteq> [] \<and> list_all isdigit ds \<and> (ds @ ''.png'', RegularFile) \<in> set files \<and>
              unat w = decimal ds) \<and>
           (\<forall>ds. ds \<noteq> [] \<and> list_all isdigit ds \<and> (ds @ ''.png'', RegularFile) \<in> set files
              \<longrightarrow> decimal ds \<le> unat w)"
proof -
  let ?names = "filter isImage (map fst (filter is_regular_file files))"
  let ?g = "\<lambda>name. decimal (takeWhile (\<lambda>c. c \<noteq> CHR ''.'') name)"
  have names: "x \<in> set ?names \<longleftrightarrow>
      (\<exists>ds. x = ds @ ''.png'' \<and> ds \<noteq> [] \<and> list_all isdigit ds \<and> (ds @ ''.png'', RegularFile) \<in> set files)"
    for x
  proof
    assume "x \<in> set ?names"
    then obtain ds c where x: "x = ds @ c # ''png''" and d: "ds \<noteq> []" "list_all isdigit ds"
      and m: "(ds @ c # ''png'', RegularFile) \<in> set files"
      unfolding image_names by blast
    have "c = CHR ''.''" using dot d m by blast
    then show "\<exists>ds. x = ds @ ''.png'' \<and> ds \<noteq> [] \<and> list_all isdigit ds \<and> (ds @ ''.png'', RegularFile) \<in> set files"
      using x d m by auto
  next
    assume "\<exists>ds. x = ds @ ''.png'' \<and> ds \<noteq> [] \<and> list_all isdigit ds \<and> (ds @ ''.png'', RegularFile) \<in> set files"
    then obtain ds where "x = ds @ CHR ''.'' # ''png''" "ds \<noteq> []" "list_all isdigit ds"
      "(ds @ CHR ''.'' # ''png'', RegularFile) \<in> set files" by auto
    moreover have "any_char CHR ''.''" by (simp add: any_char_def)
    ultimately show "x \<in> set ?names" unfolding image_names by blast
  qed
  have ne: "?names \<noteq> []"
  proof -
    obtain ds where "ds \<noteq> []" "list_all isdigit ds" "(ds @ ''.png'', RegularFile) \<in> set files"
      using ex by blast
    then have "ds @ ''.png'' \<in> set ?names" unfolding names by blast
    then show ?thesis by (metis empty_iff empty_set)
  qed
  have f: "extractImageIndex x = Inr (word_of_int (int (?g x)))" and r: "int (?g x) \<le> INT_MAX"
    if mem: "x \<in> set ?names" for x
  proof -
    obtain ds where x: "x = ds @ ''.png''" and d: "ds \<noteq> []" "list_all isdigit ds"
      and m: "(ds @ ''.png'', RegularFile) \<in> set files"
      using mem unfolding names by blast
    have g: "?g x = decimal ds" using x d takeWhile_stem by simp
    show "int (?g x) \<le> INT_MAX" using rng d m g by auto
    then show "extractImageIndex x = Inr (word_of_int (int (?g x)))"
      using x d g extractImageIndex_digits [of ds] by simp
  qed
  obtain w where w: "(case traverse extractImageIndex ?names of Inl e \<Rightarrow> Inl e | Inr is \<Rightarrow> ranges_max is) = Inr w"
    and att: "unat w \<in> ?g ` set ?names" and ub: "\<forall>x \<in> set ?names. ?g x \<le> unat w"
    using resolve_max [of ?names extractImageIndex ?g, OF ne f r] by blast
  obtain x where xm: "x \<in> set ?names" and xw: "unat w = ?g x" using att by blast
  obtain ds where "x = ds @ ''.png''" "ds \<noteq> []" "list_all isdigit ds" "(ds @ ''.png'', RegularFile) \<in> set files"
    using xm unfolding names by blast
  then have 2: "\<exists>ds. ds \<noteq> [] \<and> list_all isdigit ds \<and> (ds @ ''.png'', RegularFile) \<in> set files \<and> unat w = decimal ds"
    using xw takeWhile_stem by auto
  have 3: "decimal ds \<le> unat w"
    if h: "ds \<noteq> []" "list_all isdigit ds" "(ds @ ''.png'', RegularFile) \<in> set files" for ds
  proof -
    have "ds @ ''.png'' \<in> set ?names" using h unfolding names by blast
    then have "?g (ds @ ''.png'') \<le> unat w" using ub by blast
    then show ?thesis using h takeWhile_stem by simp
  qed
  show ?thesis using w 2 3 by blast
qed

lemma extractImageIndex_stoi:
  "ds \<noteq> [] \<Longrightarrow> list_all isdigit ds \<Longrightarrow>
     extractImageIndex (ds @ ''.png'') =
       (if int (decimal ds) \<le> INT_MAX then Inr (word_of_int (int (decimal ds))) else Inl out_of_range)"
  using stoi_digits [of ds "[]"] by (simp add: extractImageIndex_def takeWhile_stem)

subsection \<open>One pass of the loop and a run of passes\<close>

lemma windows_loop_no_match:
  "\<forall>w \<in> set ws. ownerPID w = safariPID s \<longrightarrow> windowName w \<noteq> Some title \<Longrightarrow>
     windows_loop t s ws = s"
  by (induction ws) (auto split: option.splits)

lemma windows_loop_no_capture:
  "\<not> (\<exists>w \<in> set ws. ownerPID w = safariPID s \<and> windowName w = Some title \<and> cstring w) \<Longrightarrow>
     windows_loop t s ws = s"
  by (induction ws) (auto split: option.splits)

lemma windows_loop_match:
  "\<exists>w \<in> set ws. ownerPID w = safariPID s \<and> windowName w = Some title \<and> cstring w \<Longrightarrow>
     windows_loop t s ws = capture t s"
  by (induction ws) (auto split: option.splits)

lemma windows_loop_cases: "windows_loop t s ws = s \<or> windows_loop t s ws = capture t s"
  using windows_loop_match windows_loop_no_capture by blast

lemma do_while_append:
  "do_while s (ts @ us) =
     (case do_while s ts of Running s' \<Rightarrow> do_while s' us | Returned c s' \<Rightarrow> Returned c s'
        | Aborted e fs \<Rightarrow> Aborted e fs)"
  by (induction ts arbitrary: s) (simp_all add: Let_def)

lemma do_while_keyCode:
  "do_while s ts = Running s' \<Longrightarrow> keyCode s \<noteq> 113 \<Longrightarrow> keyCode s' \<noteq> 113"
  by (induction ts arbitrary: s) (auto simp: Let_def split: if_splits)

lemma capture_fields:
  "safariPID (capture t s) = safariPID s"
  "newVersionDirectoryName (capture t s) = newVersionDirectoryName s"
  "imageIndex (capture t s) = imageIndex s + 1"
  "keyCode (capture t s) = pressed t"
  by (simp_all add: capture_def Let_def)

lemma windows_loop_fixed:
  "safariPID (windows_loop t s ws) = safariPID s"
  "newVersionDirectoryName (windows_loop t s ws) = newVersionDirectoryName s"
  using windows_loop_cases [of t s ws] by (auto simp: capture_fields)

text \<open>What \<open>main\<close> does once it has entered the loop.\<close>

lemma main_enters_loop:
  assumes "main fs procs permitted [] = Running s0"
  shows "main fs procs permitted ticks = do_while s0 ticks"
  using assms
  by (auto simp: main_def Let_def split: sum.splits prod.splits if_splits)

lemma main_initial_keyCode:
  assumes "main fs procs permitted [] = Running s0"
  shows "keyCode s0 = - 1"
  using assms
  by (auto simp: main_def Let_def split: sum.splits prod.splits if_splits)

lemma main_Running_split:
  assumes "main fs procs permitted ticks = Running s"
  obtains s0 where "main fs procs permitted [] = Running s0" "do_while s0 ticks = Running s"
  using assms
  by (auto simp: main_def Let_def split: sum.splits prod.splits if_splits)

subsection \<open>The range of what the resolvers return\<close>

lemma stoi_range:
  assumes d: "isdigit d" and s: "stoi (d # r) = Inr v"
  shows "0 \<le> v \<and> v \<le> INT_MAX"
proof -
  have 1: "\<not> isspace d" using isdigit_not_space [OF d] .
  have 2: "d \<noteq> CHR ''-''" "d \<noteq> CHR ''+''" using isdigit_not_sign [OF d] by simp_all
  show ?thesis
    using s 1 2 by (auto simp: stoi_def Let_def split: if_splits)
qed

lemma unat_word_of_int_range:
  "0 \<le> v \<Longrightarrow> v \<le> INT_MAX \<Longrightarrow> unat (word_of_int v :: size_t) \<le> 2147483647"
proof -
  assume a: "0 \<le> v" "v \<le> INT_MAX"
  then have "int (nat v) \<le> INT_MAX" by simp
  then have "unat (word_of_int (int (nat v)) :: size_t) = nat v" by (rule unat_index)
  then show ?thesis using a by (simp add: INT_MAX_def)
qed

lemma extractVersionIndex_range:
  assumes "isVersion p x" "extractVersionIndex p x = Inr y"
  shows "unat y \<le> 2147483647"
proof -
  obtain ds where x: "x = p @ ds" and ds: "ds \<noteq> []" "list_all isdigit ds"
    using assms(1) unfolding isVersion_iff by blast
  obtain d r where dr: "ds = d # r" using ds(1) by (cases ds) auto
  then have d: "isdigit d" using ds(2) by simp
  obtain v where v: "stoi (d # r) = Inr v" and y: "y = word_of_int v"
    using assms(2) x dr by (auto simp: extractVersionIndex_def split: sum.splits)
  show ?thesis using stoi_range [OF d v] y unat_word_of_int_range by blast
qed

lemma extractImageIndex_range:
  assumes "isImage x" "extractImageIndex x = Inr y"
  shows "unat y \<le> 2147483647"
proof -
  obtain ds c where x: "x = ds @ c # ''png''" and ds: "ds \<noteq> []" "list_all isdigit ds"
    using assms(1) unfolding isImage_iff by blast
  obtain d r where dr: "ds = d # r" using ds(1) by (cases ds) auto
  then have d: "isdigit d" using ds(2) by simp
  then have "d \<noteq> CHR ''.''" using isdigit_not_sign by blast
  then obtain r' where t: "takeWhile (\<lambda>c. c \<noteq> CHR ''.'') x = d # r'"
    using x dr by simp
  obtain v where v: "stoi (d # r') = Inr v" and y: "y = word_of_int v"
    using assms(2) t by (auto simp: extractImageIndex_def split: sum.splits)
  show ?thesis using stoi_range [OF d v] y unat_word_of_int_range by blast
qed

lemma traverse_source:
  "traverse f xs = Inr ys \<Longrightarrow> y \<in> set ys \<Longrightarrow> \<exists>x \<in> set xs. f x = Inr y"
  by (induction xs arbitrary: ys) (auto split: sum.splits)

lemma traverse_image:
  "traverse f xs = Inr ys \<Longrightarrow> x \<in> set xs \<Longrightarrow> \<exists>y \<in> set ys. f x = Inr y"
  by (induction xs arbitrary: ys) (auto split: sum.splits)

lemma ranges_max_in: "ranges_max xs = Inr w \<Longrightarrow> xs \<noteq> [] \<and> w = Max (set xs)"
  using ranges_max_Max [of xs] by (cases xs) auto

lemma resolve_range:
  assumes r: "(case traverse f names of Inl e \<Rightarrow> Inl e | Inr is \<Rightarrow> ranges_max is) = Inr w"
    and b: "\<And>x y. x \<in> set names \<Longrightarrow> f x = Inr y \<Longrightarrow> unat y \<le> B"
  shows "unat w \<le> B"
proof -
  obtain ys where t: "traverse f names = Inr ys" and m: "ranges_max ys = Inr w"
    using r by (auto split: sum.splits)
  have "ys \<noteq> []" and "w = Max (set ys)" using ranges_max_in [OF m] by simp_all
  then have "w \<in> set ys" using Max_in [of "set ys"] by simp
  then obtain x where "x \<in> set names" "f x = Inr w"
    using traverse_source [OF t] by blast
  then show ?thesis by (rule b)
qed

lemma findLastVersionIndex_range:
  assumes "findLastVersionIndex fs p = Inr N"
  shows "unat N \<le> 2147483647"
proof -
  obtain es where "directory_iterator fs = Inr es"
    and r: "(case traverse (extractVersionIndex p) (filter (isVersion p) (map fst (filter is_directory es))) of
               Inl e \<Rightarrow> Inl e | Inr is \<Rightarrow> ranges_max is) = Inr N"
    using assms by (auto simp: findLastVersionIndex_def split: sum.splits)
  show ?thesis
    by (rule resolve_range [OF r]) (auto intro: extractVersionIndex_range)
qed

lemma findLastImageIndex_range:
  assumes "findLastImageIndex fs p = Inr M"
  shows "unat M \<le> 2147483647"
proof -
  obtain es where
    r: "(case traverse extractImageIndex (filter isImage (map fst (filter is_regular_file es))) of
               Inl e \<Rightarrow> Inl e | Inr is \<Rightarrow> ranges_max is) = Inr M"
    using assms by (auto simp: findLastImageIndex_def split: sum.splits)
  show ?thesis
    by (rule resolve_range [OF r]) (auto intro: extractImageIndex_range)
qed

lemma unat_increment: "unat (i :: size_t) < 18446744073709551615 \<Longrightarrow> unat (i + 1) = unat i + 1"
  by (simp add: unat_word_ariths)

lemma resolved_is_directory:
  "findLastVersionIndex fs p = Inr N \<Longrightarrow> \<exists>es. fs = Some (Directory es)"
  by (cases fs rule: directory_iterator.cases) (simp_all add: findLastVersionIndex_def)

lemma version_index_upper:
  assumes vi: "findLastVersionIndex (Some (Directory es)) p = Inr N"
    and ds: "ds \<noteq> []" "list_all isdigit ds" and m: "(p @ ds, Directory sub) \<in> set es"
  shows "decimal ds \<le> unat N"
proof -
  let ?names = "filter (isVersion p) (map fst (filter is_directory es))"
  obtain ys where t: "traverse (extractVersionIndex p) ?names = Inr ys" and mx: "ranges_max ys = Inr N"
    using vi by (auto simp: findLastVersionIndex_def split: sum.splits)
  have "p @ ds \<in> set ?names" using ds m unfolding version_names by blast
  then obtain y where y: "extractVersionIndex p (p @ ds) = Inr y" and yin: "y \<in> set ys"
    using traverse_image [OF t] by blast
  have r: "int (decimal ds) \<le> INT_MAX" and yv: "y = word_of_int (int (decimal ds))"
    using y extractVersionIndex_stoi [OF ds, of p] by (auto split: if_splits)
  have "y \<le> N" using ranges_max_in [OF mx] yin by simp
  then have "unat y \<le> unat N" by (simp add: word_le_nat_alt)
  then show ?thesis using yv unat_index [OF r] by simp
qed

subsection \<open>The new version directory\<close>

lemma new_version_index:
  "findLastVersionIndex fs p = Inr N \<Longrightarrow> unat (N + 1) = Suc (unat N)"
  using findLastVersionIndex_range [of fs p N] unat_increment [of N] by simp

lemma new_name_unused:
  assumes vi: "findLastVersionIndex (Some (Directory es)) p = Inr N"
  shows "(p @ to_string (Suc (unat N)), Directory sub) \<notin> set es"
proof
  assume "(p @ to_string (Suc (unat N)), Directory sub) \<in> set es"
  then have "decimal (to_string (Suc (unat N))) \<le> unat N"
    using version_index_upper [OF vi to_string_nonempty to_string_digits] by blast
  then show False by (simp add: decimal_to_string)
qed

lemma create_directory_True:
  assumes "create_directory permitted fs name = Inr (True, es')"
  shows "\<exists>es. fs = Some (Directory es) \<and> map_of es name = None \<and> es' = es @ [(name, Directory [])]"
  using assms
  by (auto simp: create_directory_def split: option.splits node.splits if_splits)

lemma create_directory_False:
  assumes "create_directory permitted fs name = Inr (False, es')"
  shows "fs = Some (Directory es')"
  using assms
  by (auto simp: create_directory_def split: option.splits node.splits if_splits)

lemma main_unfold:
  assumes vi: "findLastVersionIndex fs versionDirectoryName = Inr N"
    and ii: "findLastImageIndex fs versionDirectoryName = Inr M"
  shows "main fs procs permitted ticks =
    (case create_directory permitted fs (versionDirectoryName @ to_string (Suc (unat N))) of
       Inl e \<Rightarrow> Aborted e fs
     | Inr (created, es) \<Rightarrow>
        if \<not> created then Aborted assertion_failed (Some (Directory es))
        else
          (case findSafariPID procs of
             Inl e \<Rightarrow> Aborted e (Some (Directory es))
           | Inr pid \<Rightarrow>
               do_while \<lparr>assets = es, newVersionDirectoryName = versionDirectoryName @ to_string (Suc (unat N)),
                          imageIndex = M, safariPID = pid, keyCode = - 1\<rparr> ticks))"
  by (simp add: main_def vi ii Let_def new_version_index [OF vi])

lemma main_start:
  assumes "main fs procs permitted [] = Running s0"
  shows "\<exists>N M es pid. findLastVersionIndex fs versionDirectoryName = Inr N \<and>
           findLastImageIndex fs versionDirectoryName = Inr M \<and>
           create_directory permitted fs (versionDirectoryName @ to_string (Suc (unat N))) =
             Inr (True, es @ [(versionDirectoryName @ to_string (Suc (unat N)), Directory [])]) \<and>
           fs = Some (Directory es) \<and>
           map_of es (versionDirectoryName @ to_string (Suc (unat N))) = None \<and>
           findSafariPID procs = Inr pid \<and>
           s0 = \<lparr>assets = es @ [(versionDirectoryName @ to_string (Suc (unat N)), Directory [])],
                 newVersionDirectoryName = versionDirectoryName @ to_string (Suc (unat N)),
                 imageIndex = M, safariPID = pid, keyCode = - 1\<rparr>"
proof -
  obtain N where vi: "findLastVersionIndex fs versionDirectoryName = Inr N"
    using assms by (auto simp: main_def split: sum.splits)
  obtain M where ii: "findLastImageIndex fs versionDirectoryName = Inr M"
    using assms vi by (auto simp: main_def split: sum.splits)
  let ?name = "versionDirectoryName @ to_string (Suc (unat N))"
  obtain es' where cr: "create_directory permitted fs ?name = Inr (True, es')"
    using assms unfolding main_unfold [OF vi ii]
    by (auto split: sum.splits prod.splits if_splits)
  obtain pid where pid: "findSafariPID procs = Inr pid"
    using assms unfolding main_unfold [OF vi ii] cr
    by (auto split: sum.splits)
  have s0: "s0 = \<lparr>assets = es', newVersionDirectoryName = ?name,
                 imageIndex = M, safariPID = pid, keyCode = - 1\<rparr>"
    using assms unfolding main_unfold [OF vi ii] cr by (simp add: pid)
  show ?thesis using create_directory_True [OF cr] vi ii cr pid s0 by auto
qed

lemma pid_loop_none:
  "\<forall>pr \<in> set procs. snd pr \<noteq> Some SAFARI_PROCESS_NAME \<Longrightarrow> pid_loop procs = Inl runtime_error"
  by (induction procs rule: pid_loop.induct) (auto split: option.splits)

lemma findSafariPID_none:
  assumes "\<forall>pr \<in> set procs. snd pr \<noteq> Some SAFARI_PROCESS_NAME"
  shows "findSafariPID procs = Inl runtime_error"
proof -
  have "\<forall>pr \<in> set (take MAX_PROCESS_CHUNK procs). snd pr \<noteq> Some SAFARI_PROCESS_NAME"
    using assms by (meson in_set_takeD)
  then show ?thesis unfolding findSafariPID_def by (rule pid_loop_none)
qed

subsection \<open>What the loop does to the assets directory\<close>

lemma write_file_new_directory:
  assumes "map_of es folder = None"
  shows "write_file (es @ [(folder, nd)]) folder file = es @ [(folder, add_file file nd)]"
proof -
  have "map (\<lambda>(n, nd). if n = folder then (n, add_file file nd) else (n, nd)) es = es"
    using assms by (induction es) (auto split: if_splits)
  then show ?thesis by (simp add: write_file_def)
qed

lemma capture_assets:
  assumes "map_of es folder = None"
    and "assets s = es @ [(folder, Directory files)]" and "newVersionDirectoryName s = folder"
  shows "\<exists>files'. assets (capture t s) = es @ [(folder, Directory files')]"
  using assms by (auto simp: capture_def Let_def write_file_new_directory)

lemma windows_loop_assets:
  assumes "map_of es folder = None"
    and "assets s = es @ [(folder, Directory files)]" and "newVersionDirectoryName s = folder"
  shows "\<exists>files'. assets (windows_loop t s ws) = es @ [(folder, Directory files')]"
  using windows_loop_cases [of t s ws] capture_assets [OF assms, of t] assms(2) by auto

lemma do_while_assets:
  assumes "map_of es folder = None"
  shows "assets s = es @ [(folder, Directory files)] \<Longrightarrow> newVersionDirectoryName s = folder \<Longrightarrow>
    (\<exists>s' files'. (do_while s ts = Running s' \<or> do_while s ts = Returned 0 s') \<and>
        assets s' = es @ [(folder, Directory files')])"
proof (induction ts arbitrary: s files)
  case Nil
  then show ?case by simp
next
  case (Cons t ts)
  let ?s1 = "windows_loop t s (windowInfos t)"
  obtain files1 where a1: "assets ?s1 = es @ [(folder, Directory files1)]"
    using windows_loop_assets [OF assms Cons.prems] by blast
  have n1: "newVersionDirectoryName ?s1 = folder"
    using Cons.prems(2) by (simp add: windows_loop_fixed)
  show ?case
  proof (cases "keyCode ?s1 = 113")
    case True
    then show ?thesis using a1 by (simp add: Let_def)
  next
    case False
    then show ?thesis using Cons.IH [OF a1 n1] by (simp add: Let_def)
  qed
qed

lemma pid_loop_error: "pid_loop procs = Inl e \<Longrightarrow> e = runtime_error"
  by (induction procs rule: pid_loop.induct) (auto split: option.splits if_splits)

lemma findSafariPID_error: "findSafariPID procs = Inl e \<Longrightarrow> e = runtime_error"
  unfolding findSafariPID_def by (rule pid_loop_error)

lemma do_while_idle:
  assumes "keyCode s \<noteq> 113"
    and "\<forall>u \<in> set ts. \<not> (\<exists>w \<in> set (windowInfos u).
            ownerPID w = safariPID s \<and> windowName w = Some title \<and> cstring w)"
  shows "do_while s ts = Running s"
  using assms by (induction ts) (simp_all add: Let_def windows_loop_no_capture)

subsection \<open>The image counter along a run\<close>

lemma windows_loop_counter:
  assumes "unat (imageIndex s) < 18446744073709551615"
  shows "unat (imageIndex s) \<le> unat (imageIndex (windows_loop t s ws)) \<and>
         unat (imageIndex (windows_loop t s ws)) \<le> Suc (unat (imageIndex s))"
  using windows_loop_cases [of t s ws] unat_increment [OF assms]
  by (auto simp: capture_fields)

lemma do_while_counter:
  "do_while s ts = Running s' \<Longrightarrow> unat (imageIndex s) + length ts \<le> 18446744073709551615 \<Longrightarrow>
     unat (imageIndex s) \<le> unat (imageIndex s') \<and>
     unat (imageIndex s') \<le> unat (imageIndex s) + length ts"
proof (induction ts arbitrary: s)
  case Nil
  then show ?case by simp
next
  case (Cons t ts)
  let ?s1 = "windows_loop t s (windowInfos t)"
  have r: "do_while ?s1 ts = Running s'"
    using Cons.prems(1) by (simp add: Let_def split: if_splits)
  have b: "unat (imageIndex s) < 18446744073709551615" using Cons.prems(2) by simp
  have c: "unat (imageIndex s) \<le> unat (imageIndex ?s1)" "unat (imageIndex ?s1) \<le> Suc (unat (imageIndex s))"
    using windows_loop_counter [OF b] by simp_all
  have "unat (imageIndex ?s1) + length ts \<le> 18446744073709551615"
    using c(2) Cons.prems(2) by simp
  then have "unat (imageIndex ?s1) \<le> unat (imageIndex s') \<and>
     unat (imageIndex s') \<le> unat (imageIndex ?s1) + length ts"
    by (rule Cons.IH [OF r])
  then show ?case using c by simp
qed

section \<open>The Version Index Resolver\<close>

text \<open>
  Claim C1, as amended. Let the prefix be free of regular-expression
  metacharacters, let the assets directory have at least one child directory
  named prefix followed by one or more decimal digits, and let every such digit
  string denote a value of at most \<open>INT_MAX\<close> (the range of \<open>std::stoi\<close>). Then
  \<open>findLastVersionIndex\<close> returns a value, this value is the number written in
  one of those directory names, and no such directory name carries a greater
  number: it is the maximum over the matching directories. Regular files and
  names of another shape do not enter.
\<close>

theorem findLastVersionIndex_max:
  assumes ord: "ordinary p"
    and ex: "\<exists>ds sub. ds \<noteq> [] \<and> list_all isdigit ds \<and> (p @ ds, Directory sub) \<in> set es"
    and rng: "\<forall>ds sub. ds \<noteq> [] \<and> list_all isdigit ds \<and> (p @ ds, Directory sub) \<in> set es
                \<longrightarrow> int (decimal ds) \<le> INT_MAX"
  shows "\<exists>w. findLastVersionIndex (Some (Directory es)) p = Inr w \<and>
           (\<exists>ds sub. ds \<noteq> [] \<and> list_all isdigit ds \<and> (p @ ds, Directory sub) \<in> set es \<and>
              unat w = decimal ds) \<and>
           (\<forall>ds sub. ds \<noteq> [] \<and> list_all isdigit ds \<and> (p @ ds, Directory sub) \<in> set es
              \<longrightarrow> decimal ds \<le> unat w)"
  using ex rng by (rule version_index_resolved)

text \<open>
  An assets directory with three version directories, a regular file whose name
  has the version shape, and a directory of another name: the result is 12.
\<close>

theorem findLastVersionIndex_max_witness:
  "\<exists>w. findLastVersionIndex (Some (Directory
      [(''ver1'', Directory []), (''ver12'', Directory [(''1.png'', RegularFile)]),
       (''ver99'', RegularFile), (''version'', Directory []), (''ver3'', Directory [])])) ''ver'' = Inr w
     \<and> unat w = 12"
proof -
  let ?es = "[(''ver1'', Directory []), (''ver12'', Directory [(''1.png'', RegularFile)]),
       (''ver99'', RegularFile), (''version'', Directory []), (''ver3'', Directory [])]"
  have ex: "\<exists>ds sub. ds \<noteq> [] \<and> list_all isdigit ds \<and> (''ver'' @ ds, Directory sub) \<in> set ?es"
    by (intro exI [of _ "''12''"] exI [of _ "[(''1.png'', RegularFile)]"]) (simp add: isdigit_def)
  have rng: "\<forall>ds sub. ds \<noteq> [] \<and> list_all isdigit ds \<and> (''ver'' @ ds, Directory sub) \<in> set ?es
                \<longrightarrow> int (decimal ds) \<le> INT_MAX"
    by (auto simp: decimal_def digit_value_def INT_MAX_def)
  obtain w where w: "findLastVersionIndex (Some (Directory ?es)) ''ver'' = Inr w"
    and att: "\<exists>ds sub. ds \<noteq> [] \<and> list_all isdigit ds \<and> (''ver'' @ ds, Directory sub) \<in> set ?es \<and>
              unat w = decimal ds"
    and ub: "\<forall>ds sub. ds \<noteq> [] \<and> list_all isdigit ds \<and> (''ver'' @ ds, Directory sub) \<in> set ?es
              \<longrightarrow> decimal ds \<le> unat w"
    using findLastVersionIndex_max [OF ordinary_ver ex rng] by blast
  have "unat w \<le> 12" using att by (auto simp: decimal_def digit_value_def isdigit_def)
  moreover have "decimal ''12'' \<le> unat w"
    using ub by (auto simp: isdigit_def)
  then have "12 \<le> unat w" by (simp add: decimal_def digit_value_def)
  ultimately show ?thesis using w by auto
qed

text \<open>
  A version directory whose number exceeds \<open>INT_MAX\<close>: \<open>std::stoi\<close> throws and
  the resolver returns no maximum.
\<close>

theorem findLastVersionIndex_max_counterexample:
  "findLastVersionIndex (Some (Directory [(''ver1'', Directory []), (''ver2147483648'', Directory [])])) ''ver''
     = Inl out_of_range"
proof -
  have 1: "extractVersionIndex ''ver'' (''ver'' @ ''1'') = Inr 1"
    by (subst extractVersionIndex_stoi) (simp_all add: isdigit_def decimal_def digit_value_def INT_MAX_def)
  have 2: "extractVersionIndex ''ver'' (''ver'' @ ''2147483648'') = Inl out_of_range"
    by (subst extractVersionIndex_stoi) (simp_all add: isdigit_def decimal_2147483648 INT_MAX_def)
  have 3: "isVersion ''ver'' ''ver1''" "isVersion ''ver'' ''ver2147483648''"
    by (simp_all add: isVersion_def isdigit_def)
  show ?thesis using 1 2 3 by (simp add: findLastVersionIndex_def)
qed

section \<open>The resolvers where nothing should match\<close>

text \<open>
  Claim C2 says that the Image Index Resolver fails, and returns no value, when
  the version directory holds no file matching the image pattern, digits followed
  by \<open>.png\<close>. The code does otherwise. Let the assets directory hold \<open>ver1\<close>,
  and \<open>ver1\<close> a single regular file \<open>7xpng\<close>. The name has no dot at all, so
  it does not match the image pattern; but the dot of the expression in the code
  is not escaped, \<open>isImage\<close> accepts the name, \<open>std::stoi\<close> reads its leading
  digit, and \<open>findLastImageIndex\<close> returns 7.
\<close>

theorem findLastImageIndex_returns_without_png:
  "CHR ''.'' \<notin> set ''7xpng'' \<and> isImage ''7xpng'' \<and>
   findLastImageIndex (Some (Directory [(''ver1'', Directory [(''7xpng'', RegularFile)])])) ''ver'' = Inr 7"
  by code_simp

section \<open>The Image Index Resolver\<close>

text \<open>
  Claim C3, as amended. Let the prefix be free of regular-expression
  metacharacters, let \<open>findLastVersionDirectory\<close> name a folder that exists
  as a directory, let this directory hold at least one regular file named by
  decimal digits followed by \<open>.png\<close>, every such stem denoting at most
  \<open>INT_MAX\<close>, and let it hold no regular file named by digits, one character other
  than the dot, and \<open>png\<close>. Then \<open>findLastImageIndex\<close> returns a value, this value
  is the stem of one of those files, and no such file has a greater stem: it is the
  maximum numeric stem. Other names, such as \<open>foo.png\<close> or \<open>1.jpg\<close>, and
  entries that are not regular files do not enter.
\<close>

theorem findLastImageIndex_max:
  assumes ord: "ordinary p"
    and vd: "findLastVersionDirectory root p = Inr folder"
    and ch: "child root folder = Some (Directory files)"
    and ex: "\<exists>ds. ds \<noteq> [] \<and> list_all isdigit ds \<and> (ds @ ''.png'', RegularFile) \<in> set files"
    and rng: "\<forall>ds. ds \<noteq> [] \<and> list_all isdigit ds \<and> (ds @ ''.png'', RegularFile) \<in> set files
                \<longrightarrow> int (decimal ds) \<le> INT_MAX"
    and dot: "\<forall>ds c. ds \<noteq> [] \<and> list_all isdigit ds \<and> c \<noteq> CHR ''.''
                \<longrightarrow> (ds @ c # ''png'', RegularFile) \<notin> set files"
  shows "\<exists>w. findLastImageIndex root p = Inr w \<and>
           (\<exists>ds. ds \<noteq> [] \<and> list_all isdigit ds \<and> (ds @ ''.png'', RegularFile) \<in> set files \<and>
              unat w = decimal ds) \<and>
           (\<forall>ds. ds \<noteq> [] \<and> list_all isdigit ds \<and> (ds @ ''.png'', RegularFile) \<in> set files
              \<longrightarrow> decimal ds \<le> unat w)"
  using image_index_resolved [OF ex rng dot] vd ch by (simp add: findLastImageIndex_def)

text \<open>
  A version directory with \<open>1.png\<close>, \<open>12.png\<close>, \<open>foo.png\<close>, \<open>1.jpg\<close> and a
  directory called \<open>99.png\<close>: the result is 12.
\<close>

theorem findLastImageIndex_max_witness:
  "\<exists>w. findLastImageIndex (Some (Directory [(''ver1'', Directory
      [(''1.png'', RegularFile), (''12.png'', RegularFile), (''foo.png'', RegularFile),
       (''1.jpg'', RegularFile), (''99.png'', Directory [])])])) ''ver'' = Inr w \<and> unat w = 12"
proof -
  let ?files = "[(''1.png'', RegularFile), (''12.png'', RegularFile), (''foo.png'', RegularFile),
       (''1.jpg'', RegularFile), (''99.png'', Directory [])]"
  let ?root = "Some (Directory [(''ver1'', Directory ?files)])"
  have vd: "findLastVersionDirectory ?root ''ver'' = Inr ''ver1''"
    by code_simp
  have ch: "child ?root ''ver1'' = Some (Directory ?files)"
    by simp
  have ex: "\<exists>ds. ds \<noteq> [] \<and> list_all isdigit ds \<and> (ds @ ''.png'', RegularFile) \<in> set ?files"
    by (intro exI [of _ "''1''"]) (simp add: isdigit_def)
  have split: "(ds @ c # ''png'', RegularFile) \<in> set ?files \<Longrightarrow>
      (ds = ''1'' \<or> ds = ''12'' \<or> ds = ''foo'') \<and> c = CHR ''.''" for ds c
  proof -
    assume m: "(ds @ c # ''png'', RegularFile) \<in> set ?files"
    have e1: "(ds @ c # ''png'' = ''1'' @ ''.png'') = (ds = ''1'' \<and> c # ''png'' = ''.png'')"
      by (rule append_eq_append_conv) simp
    have e2: "(ds @ c # ''png'' = ''12'' @ ''.png'') = (ds = ''12'' \<and> c # ''png'' = ''.png'')"
      by (rule append_eq_append_conv) simp
    have e3: "(ds @ c # ''png'' = ''foo'' @ ''.png'') = (ds = ''foo'' \<and> c # ''png'' = ''.png'')"
      by (rule append_eq_append_conv) simp
    have e4: "(ds @ c # ''png'' = ''1'' @ ''.jpg'') = (ds = ''1'' \<and> c # ''png'' = ''.jpg'')"
      by (rule append_eq_append_conv) simp
    have "ds @ c # ''png'' = ''1'' @ ''.png'' \<or> ds @ c # ''png'' = ''12'' @ ''.png'' \<or>
          ds @ c # ''png'' = ''foo'' @ ''.png'' \<or> ds @ c # ''png'' = ''1'' @ ''.jpg''"
      using m by simp
    then show ?thesis unfolding e1 e2 e3 e4 by auto
  qed
  have rng: "\<forall>ds. ds \<noteq> [] \<and> list_all isdigit ds \<and> (ds @ ''.png'', RegularFile) \<in> set ?files
                \<longrightarrow> int (decimal ds) \<le> INT_MAX"
  proof (intro allI impI)
    fix ds
    assume a: "ds \<noteq> [] \<and> list_all isdigit ds \<and> (ds @ ''.png'', RegularFile) \<in> set ?files"
    then have "(ds @ CHR ''.'' # ''png'', RegularFile) \<in> set ?files" by simp
    then have "ds = ''1'' \<or> ds = ''12'' \<or> ds = ''foo''" using split by blast
    then show "int (decimal ds) \<le> INT_MAX"
      using a by (auto simp: decimal_def digit_value_def INT_MAX_def isdigit_def)
  qed
  have dot: "\<forall>ds c. ds \<noteq> [] \<and> list_all isdigit ds \<and> c \<noteq> CHR ''.''
                \<longrightarrow> (ds @ c # ''png'', RegularFile) \<notin> set ?files"
    using split by blast
  obtain w where w: "findLastImageIndex ?root ''ver'' = Inr w"
    using findLastImageIndex_max [OF ordinary_ver vd ch ex rng dot] by blast
  have "findLastImageIndex ?root ''ver'' = Inr 12"
    by code_simp
  then have "w = 12" using w by simp
  then show ?thesis using w by simp
qed

text \<open>
  An image whose stem exceeds \<open>INT_MAX\<close>: \<open>std::stoi\<close> throws and the resolver
  returns no maximum.
\<close>

theorem findLastImageIndex_max_counterexample:
  "findLastImageIndex (Some (Directory [(''ver1'', Directory
      [(''1.png'', RegularFile), (''2147483648.png'', RegularFile)])])) ''ver'' = Inl out_of_range"
proof -
  let ?files = "[(''1.png'', RegularFile), (''2147483648.png'', RegularFile)]"
  let ?root = "Some (Directory [(''ver1'', Directory ?files)])"
  have vd: "findLastVersionDirectory ?root ''ver'' = Inr ''ver1''"
    by code_simp
  have 1: "extractImageIndex (''1'' @ ''.png'') = Inr 1"
    by (subst extractImageIndex_stoi) (simp_all add: isdigit_def decimal_def digit_value_def INT_MAX_def)
  have 2: "extractImageIndex (''2147483648'' @ ''.png'') = Inl out_of_range"
    by (subst extractImageIndex_stoi) (simp_all add: isdigit_def decimal_2147483648 INT_MAX_def)
  have 3: "isImage ''1.png''" "isImage ''2147483648.png''"
    by (simp_all add: isImage_def isdigit_def any_char_def)
  show ?thesis using vd 1 2 3 by (simp add: findLastImageIndex_def)
qed

text \<open>
  The dot of the image pattern is not escaped: a regular file \<open>7xpng\<close> is accepted,
  and since its name has no dot, \<open>std::stoi\<close> reads its leading digits.
\<close>

lemma findLastImageIndex_unescaped_dot:
  "findLastImageIndex (Some (Directory [(''ver1'', Directory
      [(''1.png'', RegularFile), (''7xpng'', RegularFile)])])) ''ver'' = Inr 7"
  by code_simp

section \<open>Continuity of the image counter across runs\<close>

text \<open>
  Claim C4, as amended. Let the resolvers, applied to the assets directory as it
  is before start-up, return version index \<open>N\<close> and image index \<open>M\<close>, and
  let start-up succeed. Then the loop is entered with the new directory prefix + decimal
  \<open>N + 1\<close> appended, empty, to the assets directory and with the image counter at
  \<open>M\<close>. After any number of passes that capture nothing, the first pass that
  finds and captures the window hands the run on (returned 0 on key 113, in the
  loop otherwise) with the counter at \<open>M + 1\<close>; when its frame is written, the
  new directory then holds exactly one file, named decimal \<open>M + 1\<close> followed by
  \<open>.png\<close>.
\<close>

theorem first_capture_continues_counter:
  assumes vi: "findLastVersionIndex fs versionDirectoryName = Inr N"
    and ii: "findLastImageIndex fs versionDirectoryName = Inr M"
    and start: "main fs procs permitted [] = Running s0"
    and idle: "\<forall>u \<in> set ts. \<not> (\<exists>w \<in> set (windowInfos u).
                 ownerPID w = safariPID s0 \<and> windowName w = Some title \<and> cstring w)"
    and found: "\<exists>w \<in> set (windowInfos t).
                 ownerPID w = safariPID s0 \<and> windowName w = Some title \<and> cstring w"
  shows "\<exists>es. fs = Some (Directory es) \<and>
     s0 = \<lparr>assets = es @ [(versionDirectoryName @ to_string (Suc (unat N)), Directory [])],
            newVersionDirectoryName = versionDirectoryName @ to_string (Suc (unat N)),
            imageIndex = M, safariPID = safariPID s0, keyCode = - 1\<rparr> \<and>
     main fs procs permitted (ts @ [t]) =
       (if pressed t = 113 then Returned 0 else Running)
         \<lparr>assets = es @ [(versionDirectoryName @ to_string (Suc (unat N)),
                           Directory (if SaveCGImageToPNG True (destination t) (finalized t)
                                      then [(to_string (Suc (unat M)) @ ''.png'', RegularFile)]
                                      else []))],
           newVersionDirectoryName = versionDirectoryName @ to_string (Suc (unat N)),
           imageIndex = M + 1, safariPID = safariPID s0, keyCode = pressed t\<rparr>"
proof -
  let ?name = "versionDirectoryName @ to_string (Suc (unat N))"
  let ?file = "to_string (Suc (unat M)) @ ''.png''"
  obtain es pid where fs: "fs = Some (Directory es)" and none: "map_of es ?name = None"
    and s0: "s0 = \<lparr>assets = es @ [(?name, Directory [])], newVersionDirectoryName = ?name,
                   imageIndex = M, safariPID = pid, keyCode = - 1\<rparr>"
    using main_start [OF start] vi ii by auto
  have pid: "safariPID s0 = pid" using s0 by simp
  have k: "keyCode s0 \<noteq> 113" using s0 by simp
  have m1: "unat (M + 1) = Suc (unat M)"
    using findLastImageIndex_range [OF ii] unat_increment [of M] by simp
  have cap: "capture t s0 =
      \<lparr>assets = es @ [(?name, Directory (if SaveCGImageToPNG True (destination t) (finalized t)
                                             then [(?file, RegularFile)] else []))],
        newVersionDirectoryName = ?name,
        imageIndex = M + 1, safariPID = pid, keyCode = pressed t\<rparr>"
    using none by (simp add: capture_def Let_def s0 m1 write_file_new_directory)
  have "main fs procs permitted (ts @ [t]) = do_while s0 (ts @ [t])"
    using start by (rule main_enters_loop)
  also have "\<dots> = do_while s0 [t]"
    using do_while_idle [OF k idle] by (simp add: do_while_append)
  also have "\<dots> = (if pressed t = 113 then Returned 0 else Running) (capture t s0)"
    using windows_loop_match [OF found, of t] by (simp add: Let_def capture_fields)
  finally show ?thesis using fs s0 cap pid by simp
qed

text \<open>
  The assets directory holds \<open>ver1\<close> with \<open>1.png\<close> and \<open>2.png\<close>: after a pass
  without the window, the first capture is written as \<open>ver2/3.png\<close>.
\<close>

theorem first_capture_continues_counter_witness:
  "main (Some (Directory [(''ver1'', Directory [(''1.png'', RegularFile), (''2.png'', RegularFile)])]))
        [(501, Some ''Safari'')] True
        ([\<lparr>windowInfos = [], destination = True, finalized = True, pressed = 0\<rparr>] @
         [\<lparr>windowInfos = [\<lparr>ownerPID = 501, windowName = Some title, cstring = True, windowNumber = 7\<rparr>],
           destination = True, finalized = True, pressed = 97\<rparr>])
   = Running \<lparr>assets = [(''ver1'', Directory [(''1.png'', RegularFile), (''2.png'', RegularFile)]),
                          (''ver2'', Directory [(''3.png'', RegularFile)])],
                newVersionDirectoryName = ''ver2'', imageIndex = 3, safariPID = 501, keyCode = 97\<rparr>"
proof -
  let ?es = "[(''ver1'', Directory [(''1.png'', RegularFile), (''2.png'', RegularFile)])]"
  let ?fs = "Some (Directory ?es)"
  let ?procs = "[(501, Some ''Safari'')]"
  let ?u = "\<lparr>windowInfos = [], destination = True, finalized = True, pressed = 0\<rparr>"
  let ?t = "\<lparr>windowInfos = [\<lparr>ownerPID = 501, windowName = Some title, cstring = True, windowNumber = 7\<rparr>],
           destination = True, finalized = True, pressed = 97\<rparr>"
  let ?s0 = "\<lparr>assets = ?es @ [(''ver2'', Directory [])], newVersionDirectoryName = ''ver2'',
              imageIndex = 2, safariPID = 501, keyCode = - 1\<rparr>"
  have vi: "findLastVersionIndex ?fs versionDirectoryName = Inr 1"
    by code_simp
  have ii: "findLastImageIndex ?fs versionDirectoryName = Inr 2"
    by code_simp
  have start: "main ?fs ?procs True [] = Running ?s0"
    by code_simp
  have idle: "\<forall>u \<in> set [?u]. \<not> (\<exists>w \<in> set (windowInfos u).
                 ownerPID w = safariPID ?s0 \<and> windowName w = Some title \<and> cstring w)"
    by simp
  have found: "\<exists>w \<in> set (windowInfos ?t).
                 ownerPID w = safariPID ?s0 \<and> windowName w = Some title \<and> cstring w"
    by simp
  have saved: "SaveCGImageToPNG True (destination ?t) (finalized ?t)"
    by (simp add: SaveCGImageToPNG_def)
  have nm: "versionDirectoryName @ to_string (Suc (unat (1 :: size_t))) = ''ver2''"
    by code_simp
  have fl: "to_string (Suc (unat (2 :: size_t))) @ ''.png'' = ''3.png''"
    by code_simp
  show ?thesis
    using first_capture_continues_counter [OF vi ii start idle found] saved
    unfolding nm fl by simp
qed

text \<open>
  The first frame of the run cannot be finalized, the second is written: the first
  file that the run leaves in \<open>ver2\<close> is \<open>4.png\<close>, not \<open>3.png\<close>.
\<close>

theorem first_capture_continues_counter_counterexample:
  "main (Some (Directory [(''ver1'', Directory [(''1.png'', RegularFile), (''2.png'', RegularFile)])]))
        [(501, Some ''Safari'')] True
        [\<lparr>windowInfos = [\<lparr>ownerPID = 501, windowName = Some title, cstring = True, windowNumber = 7\<rparr>],
          destination = True, finalized = False, pressed = 97\<rparr>,
         \<lparr>windowInfos = [\<lparr>ownerPID = 501, windowName = Some title, cstring = True, windowNumber = 7\<rparr>],
          destination = True, finalized = True, pressed = 113\<rparr>]
   = Returned 0 \<lparr>assets = [(''ver1'', Directory [(''1.png'', RegularFile), (''2.png'', RegularFile)]),
                             (''ver2'', Directory [(''4.png'', RegularFile)])],
                   newVersionDirectoryName = ''ver2'', imageIndex = 4, safariPID = 501, keyCode = 113\<rparr>"
  by code_simp

section \<open>The target process is looked up after the directory is made\<close>

text \<open>
  Claim C5, as amended. If no process of the process table carries the name of
  the target process, \<open>main\<close> is aborted whatever else happens. When that abort is
  the failure to find the process, that is when both resolvers have succeeded and
  the new version directory has been made, the abort comes with the new, empty
  version directory on disk: a directory that the assets directory did not have
  before start-up.
\<close>

theorem process_not_found_after_creation:
  assumes np: "\<forall>pr \<in> set procs. snd pr \<noteq> Some SAFARI_PROCESS_NAME"
  shows "(\<exists>e fs'. main fs procs permitted ticks = Aborted e fs') \<and>
         (findLastVersionIndex fs versionDirectoryName = Inr N \<and>
          findLastImageIndex fs versionDirectoryName = Inr M \<and>
          create_directory permitted fs (versionDirectoryName @ to_string (Suc (unat N))) = Inr (True, es')
          \<longrightarrow> main fs procs permitted ticks = Aborted runtime_error (Some (Directory es')) \<and>
              child fs (versionDirectoryName @ to_string (Suc (unat N))) = None \<and>
              child (Some (Directory es')) (versionDirectoryName @ to_string (Suc (unat N))) =
                Some (Directory []))"
proof
  have pid: "findSafariPID procs = Inl runtime_error"
    using np by (rule findSafariPID_none)
  show "\<exists>e fs'. main fs procs permitted ticks = Aborted e fs'"
    by (simp add: main_def Let_def pid split: sum.splits prod.splits)
  show "findLastVersionIndex fs versionDirectoryName = Inr N \<and>
          findLastImageIndex fs versionDirectoryName = Inr M \<and>
          create_directory permitted fs (versionDirectoryName @ to_string (Suc (unat N))) = Inr (True, es')
          \<longrightarrow> main fs procs permitted ticks = Aborted runtime_error (Some (Directory es')) \<and>
              child fs (versionDirectoryName @ to_string (Suc (unat N))) = None \<and>
              child (Some (Directory es')) (versionDirectoryName @ to_string (Suc (unat N))) =
                Some (Directory [])"
  proof
    let ?name = "versionDirectoryName @ to_string (Suc (unat N))"
    assume a: "findLastVersionIndex fs versionDirectoryName = Inr N \<and>
          findLastImageIndex fs versionDirectoryName = Inr M \<and>
          create_directory permitted fs ?name = Inr (True, es')"
    then have vi: "findLastVersionIndex fs versionDirectoryName = Inr N"
      and ii: "findLastImageIndex fs versionDirectoryName = Inr M"
      and cr: "create_directory permitted fs ?name = Inr (True, es')"
      by simp_all
    obtain es where fs: "fs = Some (Directory es)" and none: "map_of es ?name = None"
      and es': "es' = es @ [(?name, Directory [])]"
      using create_directory_True [OF cr] by blast
    have "main fs procs permitted ticks = Aborted runtime_error (Some (Directory es'))"
      unfolding main_unfold [OF vi ii] cr by (simp add: pid)
    moreover have "child fs ?name = None" using fs none by simp
    moreover have "child (Some (Directory es')) ?name = Some (Directory [])"
      using none by (simp add: es' map_add_def)
    ultimately show "main fs procs permitted ticks = Aborted runtime_error (Some (Directory es')) \<and>
              child fs ?name = None \<and> child (Some (Directory es')) ?name = Some (Directory [])"
      by simp
  qed
qed

text \<open>
  No process at all, start-up on \<open>ver1\<close> with one image.
\<close>

theorem process_not_found_after_creation_witness:
  "main (Some (Directory [(''ver1'', Directory [(''1.png'', RegularFile)])])) [(1, Some ''launchd''), (77, None)]
        True [] =
     Aborted runtime_error (Some (Directory [(''ver1'', Directory [(''1.png'', RegularFile)]),
                                             (''ver2'', Directory [])]))"
proof -
  let ?fs = "Some (Directory [(''ver1'', Directory [(''1.png'', RegularFile)])])"
  let ?procs = "[(1, Some ''launchd''), (77, None)]"
  have np: "\<forall>pr \<in> set ?procs. snd pr \<noteq> Some SAFARI_PROCESS_NAME"
    by (simp add: SAFARI_PROCESS_NAME_def)
  have vi: "findLastVersionIndex ?fs versionDirectoryName = Inr 1"
    by code_simp
  have ii: "findLastImageIndex ?fs versionDirectoryName = Inr 1"
    by code_simp
  have nm: "versionDirectoryName @ to_string (Suc (unat (1 :: size_t))) = ''ver2''"
    by code_simp
  have cr: "create_directory True ?fs (versionDirectoryName @ to_string (Suc (unat (1 :: size_t)))) =
      Inr (True, [(''ver1'', Directory [(''1.png'', RegularFile)]), (''ver2'', Directory [])])"
    by code_simp
  show ?thesis
    using process_not_found_after_creation [OF np, THEN conjunct2, THEN mp, OF conjI [OF vi conjI [OF ii cr]]]
    by simp
qed

text \<open>
  The target process is not running, and yet the directory \<open>ver2\<close>, absent before
  start-up, is on disk when \<open>main\<close> is aborted.
\<close>

theorem process_not_found_counterexample:
  "main (Some (Directory [(''ver1'', Directory [(''1.png'', RegularFile)])])) [] True [] =
     Aborted runtime_error (Some (Directory [(''ver1'', Directory [(''1.png'', RegularFile)]),
                                             (''ver2'', Directory [])])) \<and>
   child (Some (Directory [(''ver1'', Directory [(''1.png'', RegularFile)])])) ''ver2'' = None \<and>
   child (Some (Directory [(''ver1'', Directory [(''1.png'', RegularFile)]), (''ver2'', Directory [])])) ''ver2''
     = Some (Directory [])"
  by code_simp

section \<open>Allocation of the new version directory\<close>

text \<open>
  Claim C6. Let both resolvers succeed on the assets directory, with version index
  \<open>N\<close>. The name prefix + decimal \<open>N + 1\<close> is not the name of any directory
  under the assets directory. If \<open>create_directory\<close> makes the directory of that
  name, then from there on the assets directory consists of its former entries,
  unchanged, followed by this one new directory: either \<open>main\<close> is ended by the
  missing target process with exactly that content on disk, or it is in the loop
  or has returned 0 with that content and some files in the new directory. If the
  directory is not made, \<open>main\<close> is aborted with the assets directory as it was.
\<close>

theorem new_version_directory:
  assumes vi: "findLastVersionIndex fs versionDirectoryName = Inr N"
    and ii: "findLastImageIndex fs versionDirectoryName = Inr M"
  shows "\<exists>es. fs = Some (Directory es) \<and>
      (\<forall>sub. (versionDirectoryName @ to_string (Suc (unat N)), Directory sub) \<notin> set es) \<and>
      (if create_directory permitted fs (versionDirectoryName @ to_string (Suc (unat N))) =
            Inr (True, es @ [(versionDirectoryName @ to_string (Suc (unat N)), Directory [])])
       then main fs procs permitted ticks =
              Aborted runtime_error
                (Some (Directory (es @ [(versionDirectoryName @ to_string (Suc (unat N)), Directory [])]))) \<or>
            (\<exists>s files. (main fs procs permitted ticks = Running s \<or>
                         main fs procs permitted ticks = Returned 0 s) \<and>
                        assets s = es @ [(versionDirectoryName @ to_string (Suc (unat N)), Directory files)])
       else \<exists>e. main fs procs permitted ticks = Aborted e fs)"
proof -
  let ?name = "versionDirectoryName @ to_string (Suc (unat N))"
  obtain es where fs: "fs = Some (Directory es)"
    using resolved_is_directory [OF vi] by blast
  have unused: "\<forall>sub. (?name, Directory sub) \<notin> set es"
    using new_name_unused vi fs by blast
  have main: "main fs procs permitted ticks =
    (case create_directory permitted fs ?name of
       Inl e \<Rightarrow> Aborted e fs
     | Inr (created, es) \<Rightarrow>
        if \<not> created then Aborted assertion_failed (Some (Directory es))
        else
          (case findSafariPID procs of
             Inl e \<Rightarrow> Aborted e (Some (Directory es))
           | Inr pid \<Rightarrow>
               do_while \<lparr>assets = es, newVersionDirectoryName = ?name,
                          imageIndex = M, safariPID = pid, keyCode = - 1\<rparr> ticks))"
    using vi ii by (rule main_unfold)
  have rest: "if create_directory permitted fs ?name = Inr (True, es @ [(?name, Directory [])])
       then main fs procs permitted ticks =
              Aborted runtime_error (Some (Directory (es @ [(?name, Directory [])]))) \<or>
            (\<exists>s files. (main fs procs permitted ticks = Running s \<or>
                         main fs procs permitted ticks = Returned 0 s) \<and>
                        assets s = es @ [(?name, Directory files)])
       else \<exists>e. main fs procs permitted ticks = Aborted e fs"
  proof (cases "create_directory permitted fs ?name = Inr (True, es @ [(?name, Directory [])])")
    case True
    then have none: "map_of es ?name = None"
      using create_directory_True [OF True] fs by simp
    show ?thesis
    proof (cases "findSafariPID procs")
      case (Inl e)
      have "e = runtime_error" using Inl by (rule findSafariPID_error)
      then show ?thesis using True Inl by (simp add: main)
    next
      case (Inr pid)
      let ?s0 = "\<lparr>assets = es @ [(?name, Directory [])], newVersionDirectoryName = ?name,
                  imageIndex = M, safariPID = pid, keyCode = - 1\<rparr>"
      have "\<exists>s' files'. (do_while ?s0 ticks = Running s' \<or> do_while ?s0 ticks = Returned 0 s') \<and>
              assets s' = es @ [(?name, Directory files')]"
        by (rule do_while_assets [OF none]) simp_all
      then show ?thesis using True Inr by (simp add: main)
    qed
  next
    case False
    show ?thesis
    proof (cases "create_directory permitted fs ?name")
      case (Inl e)
      then show ?thesis using False by (simp add: main)
    next
      case (Inr r)
      obtain created es' where r: "r = (created, es')" by (cases r)
      show ?thesis
      proof (cases created)
        case True
        then have "es' = es @ [(?name, Directory [])]"
          using create_directory_True [of permitted fs ?name es'] Inr r fs by simp
        then show ?thesis using False Inr r True by simp
      next
        case c: False
        have a: "main fs procs permitted ticks = Aborted assertion_failed (Some (Directory es'))"
          using Inr r c by (simp add: main)
        have "Some (Directory es') = fs"
          using create_directory_False [of permitted fs ?name es'] Inr r c by simp
        then have "\<exists>e. main fs procs permitted ticks = Aborted e fs"
          using a by (intro exI [of _ assertion_failed]) (simp only:)
        then show ?thesis using False by (simp only: if_False)
      qed
    qed
  qed
  show ?thesis using fs unused rest by blast
qed

text \<open>
  Start-up on \<open>ver1\<close> with two images, where a regular file \<open>ver9\<close> lies beside
  it: the directory \<open>ver2\<close> is appended, one capture fills it and the operator
  quits.
\<close>

theorem new_version_directory_witness:
  "(\<forall>sub. (''ver2'', Directory sub) \<notin> set
       [(''ver1'', Directory [(''1.png'', RegularFile), (''2.png'', RegularFile)]), (''ver9'', RegularFile)]) \<and>
   (\<exists>s files.
      main (Some (Directory [(''ver1'', Directory [(''1.png'', RegularFile), (''2.png'', RegularFile)]),
                             (''ver9'', RegularFile)]))
           [(501, Some ''Safari'')] True
           [\<lparr>windowInfos = [\<lparr>ownerPID = 501, windowName = Some title, cstring = True, windowNumber = 7\<rparr>],
             destination = True, finalized = True, pressed = 113\<rparr>] = Returned 0 s \<and>
      assets s = [(''ver1'', Directory [(''1.png'', RegularFile), (''2.png'', RegularFile)]),
                  (''ver9'', RegularFile)] @ [(''ver2'', Directory files)])"
proof -
  let ?es = "[(''ver1'', Directory [(''1.png'', RegularFile), (''2.png'', RegularFile)]), (''ver9'', RegularFile)]"
  let ?fs = "Some (Directory ?es)"
  let ?procs = "[(501, Some ''Safari'')]"
  let ?ticks = "[\<lparr>windowInfos = [\<lparr>ownerPID = 501, windowName = Some title, cstring = True, windowNumber = 7\<rparr>],
             destination = True, finalized = True, pressed = 113\<rparr>]"
  have vi: "findLastVersionIndex ?fs versionDirectoryName = Inr 1"
    by code_simp
  have ii: "findLastImageIndex ?fs versionDirectoryName = Inr 2"
    by code_simp
  have nm: "versionDirectoryName @ to_string (Suc (unat (1 :: size_t))) = ''ver2''"
    by code_simp
  have cr: "create_directory True ?fs ''ver2'' = Inr (True, ?es @ [(''ver2'', Directory [])])"
    by code_simp
  have "main ?fs ?procs True ?ticks =
      Returned 0 \<lparr>assets = ?es @ [(''ver2'', Directory [(''3.png'', RegularFile)])],
                   newVersionDirectoryName = ''ver2'', imageIndex = 3, safariPID = 501, keyCode = 113\<rparr>"
    by code_simp
  then have ret: "\<exists>s. main ?fs ?procs True ?ticks = Returned 0 s"
    by (rule exI)
  obtain es where es: "?fs = Some (Directory es)"
    and unused: "\<forall>sub. (''ver2'', Directory sub) \<notin> set es"
    and rest: "if create_directory True ?fs ''ver2'' = Inr (True, es @ [(''ver2'', Directory [])])
       then main ?fs ?procs True ?ticks =
              Aborted runtime_error (Some (Directory (es @ [(''ver2'', Directory [])]))) \<or>
            (\<exists>s files. (main ?fs ?procs True ?ticks = Running s \<or>
                         main ?fs ?procs True ?ticks = Returned 0 s) \<and>
                        assets s = es @ [(''ver2'', Directory files)])
       else \<exists>e. main ?fs ?procs True ?ticks = Aborted e ?fs"
    using new_version_directory [OF vi ii, of True ?procs ?ticks] unfolding nm by blast
  have e: "es = ?es" using es by simp
  obtain s where s: "main ?fs ?procs True ?ticks = Returned 0 s" using ret by blast
  have "\<exists>files. assets s = ?es @ [(''ver2'', Directory files)]"
    using rest cr s unfolding e by auto
  then show ?thesis using unused s unfolding e by blast
qed

section \<open>The operator's key\<close>

text \<open>
  Claim C7. In a pass of the loop that reaches \<open>cv::waitKey\<close> (a window of the
  target process with the expected title is found and captured), key code 113
  ends the loop and \<open>main\<close> returns 0; every other key code leads to the next
  pass of the loop, from the state the capture left, without an exit.
\<close>

theorem key_113_quits:
  assumes "\<exists>w \<in> set (windowInfos t). ownerPID w = safariPID s \<and> windowName w = Some title \<and> cstring w"
  shows "keyCode (capture t s) = pressed t \<and>
         (pressed t = 113 \<longrightarrow> do_while s (t # ts) = Returned 0 (capture t s)) \<and>
         (pressed t \<noteq> 113 \<longrightarrow> do_while s (t # ts) = do_while (capture t s) ts)"
  using windows_loop_match [OF assms, of t] by (simp add: Let_def capture_fields)

text \<open>
  The window is second in the list, behind a window of another process; first the
  key \<open>q\<close>, then the key \<open>a\<close> followed by a pass with \<open>q\<close>.
\<close>

theorem key_113_quits_witness:
  "do_while \<lparr>assets = [(''ver2'', Directory [])], newVersionDirectoryName = ''ver2'',
              imageIndex = 2, safariPID = 501, keyCode = - 1\<rparr>
     [\<lparr>windowInfos = [\<lparr>ownerPID = 77, windowName = Some ''Finder'', cstring = True, windowNumber = 3\<rparr>,
                      \<lparr>ownerPID = 501, windowName = Some title, cstring = True, windowNumber = 7\<rparr>],
       destination = True, finalized = True, pressed = 113\<rparr>]
   = Returned 0 \<lparr>assets = [(''ver2'', Directory [(''3.png'', RegularFile)])],
                  newVersionDirectoryName = ''ver2'', imageIndex = 3, safariPID = 501, keyCode = 113\<rparr>
   \<and>
   do_while \<lparr>assets = [(''ver2'', Directory [])], newVersionDirectoryName = ''ver2'',
              imageIndex = 2, safariPID = 501, keyCode = - 1\<rparr>
     [\<lparr>windowInfos = [\<lparr>ownerPID = 77, windowName = Some ''Finder'', cstring = True, windowNumber = 3\<rparr>,
                      \<lparr>ownerPID = 501, windowName = Some title, cstring = True, windowNumber = 7\<rparr>],
       destination = True, finalized = True, pressed = 97\<rparr>]
   = Running \<lparr>assets = [(''ver2'', Directory [(''3.png'', RegularFile)])],
                newVersionDirectoryName = ''ver2'', imageIndex = 3, safariPID = 501, keyCode = 97\<rparr>"
proof -
  let ?s = "\<lparr>assets = [(''ver2'', Directory [])], newVersionDirectoryName = ''ver2'',
              imageIndex = 2, safariPID = 501, keyCode = - 1\<rparr>"
  let ?ws = "[\<lparr>ownerPID = 77, windowName = Some ''Finder'', cstring = True, windowNumber = 3\<rparr>,
              \<lparr>ownerPID = 501, windowName = Some title, cstring = True, windowNumber = 7\<rparr>]"
  let ?q = "\<lparr>windowInfos = ?ws, destination = True, finalized = True, pressed = 113\<rparr>"
  let ?a = "\<lparr>windowInfos = ?ws, destination = True, finalized = True, pressed = 97\<rparr>"
  have mq: "\<exists>w \<in> set (windowInfos ?q). ownerPID w = safariPID ?s \<and> windowName w = Some title \<and> cstring w"
    by simp
  have ma: "\<exists>w \<in> set (windowInfos ?a). ownerPID w = safariPID ?s \<and> windowName w = Some title \<and> cstring w"
    by simp
  have cq: "capture ?q ?s = \<lparr>assets = [(''ver2'', Directory [(''3.png'', RegularFile)])],
                  newVersionDirectoryName = ''ver2'', imageIndex = 3, safariPID = 501, keyCode = 113\<rparr>"
    by code_simp
  have ca: "capture ?a ?s = \<lparr>assets = [(''ver2'', Directory [(''3.png'', RegularFile)])],
                  newVersionDirectoryName = ''ver2'', imageIndex = 3, safariPID = 501, keyCode = 97\<rparr>"
    by code_simp
  have "do_while ?s [?q] = Returned 0 (capture ?q ?s)"
    using key_113_quits [OF mq, of "[]"] by simp
  moreover have "do_while ?s [?a] = do_while (capture ?a ?s) []"
    using key_113_quits [OF ma, of "[]"] by simp
  ultimately show ?thesis unfolding cq ca by simp
qed

section \<open>A pass without the window\<close>

text \<open>
  Claim C8. Let a run of \<open>main\<close> be in the loop, in state \<open>s\<close>, after some
  passes. If in the next pass no window owned by the target process has the
  expected title, the run is in the loop after that pass as well, in the same
  state \<open>s\<close>: the image index has not moved and \<open>main\<close> has not returned.
\<close>

theorem pass_without_window:
  assumes run: "main fs procs permitted ts = Running s"
    and none: "\<forall>w \<in> set (windowInfos t). ownerPID w = safariPID s \<longrightarrow> windowName w \<noteq> Some title"
  shows "main fs procs permitted (ts @ [t]) = Running s \<and>
         imageIndex (windows_loop t s (windowInfos t)) = imageIndex s"
proof -
  obtain s0 where s0: "main fs procs permitted [] = Running s0" and dw: "do_while s0 ts = Running s"
    using run by (rule main_Running_split)
  have k: "keyCode s \<noteq> 113"
    using do_while_keyCode [OF dw] main_initial_keyCode [OF s0] by simp
  have w: "windows_loop t s (windowInfos t) = s"
    using none by (rule windows_loop_no_match)
  have "main fs procs permitted (ts @ [t]) = do_while s0 (ts @ [t])"
    using s0 by (rule main_enters_loop)
  also have "\<dots> = do_while s [t]" by (simp add: do_while_append dw)
  also have "\<dots> = Running s" using w k by (simp add: Let_def)
  finally show ?thesis using w by simp
qed

text \<open>
  After start-up on \<open>ver1\<close> with two images, a pass that sees the expected title
  on a window of another process, another title on a window of the target process
  and a window without a name.
\<close>

theorem pass_without_window_witness:
  "main (Some (Directory [(''ver1'', Directory [(''1.png'', RegularFile), (''2.png'', RegularFile)])]))
        [(77, Some ''Finder''), (501, Some ''Safari'')] True
        ([] @ [\<lparr>windowInfos = [\<lparr>ownerPID = 77, windowName = Some title, cstring = True, windowNumber = 3\<rparr>,
                                 \<lparr>ownerPID = 501, windowName = Some ''Start Page'', cstring = True, windowNumber = 7\<rparr>,
                                 \<lparr>ownerPID = 501, windowName = None, cstring = True, windowNumber = 8\<rparr>],
                  destination = True, finalized = True, pressed = 113\<rparr>])
   = Running \<lparr>assets = [(''ver1'', Directory [(''1.png'', RegularFile), (''2.png'', RegularFile)]),
                          (''ver2'', Directory [])],
                newVersionDirectoryName = ''ver2'', imageIndex = 2, safariPID = 501, keyCode = - 1\<rparr>"
proof -
  let ?fs = "Some (Directory [(''ver1'', Directory [(''1.png'', RegularFile), (''2.png'', RegularFile)])])"
  let ?procs = "[(77, Some ''Finder''), (501, Some ''Safari'')]"
  let ?t = "\<lparr>windowInfos = [\<lparr>ownerPID = 77, windowName = Some title, cstring = True, windowNumber = 3\<rparr>,
                                 \<lparr>ownerPID = 501, windowName = Some ''Start Page'', cstring = True, windowNumber = 7\<rparr>,
                                 \<lparr>ownerPID = 501, windowName = None, cstring = True, windowNumber = 8\<rparr>],
                  destination = True, finalized = True, pressed = 113\<rparr>"
  let ?s = "\<lparr>assets = [(''ver1'', Directory [(''1.png'', RegularFile), (''2.png'', RegularFile)]),
                          (''ver2'', Directory [])],
                newVersionDirectoryName = ''ver2'', imageIndex = 2, safariPID = 501, keyCode = - 1\<rparr>"
  have run: "main ?fs ?procs True [] = Running ?s"
    by code_simp
  have none: "\<forall>w \<in> set (windowInfos ?t). ownerPID w = safariPID ?s \<longrightarrow> windowName w \<noteq> Some title"
    by (simp add: title_def)
  show ?thesis using pass_without_window [OF run none] by simp
qed

section \<open>A frame that cannot be written\<close>

text \<open>
  Claim C9. Let a run of \<open>main\<close> be in the loop, in state \<open>s\<close>, and let the next
  pass find and capture the window while \<open>SaveCGImageToPNG\<close> reports failure.
  Then the pass ends as it would have after a successful write (returned 0 on key
  113, in the loop otherwise), with the assets directory unchanged and the image
  counter advanced by one: the index is consumed and not given back. At every
  later loop head \<open>s'\<close> of the run, a pass that finds the window and writes its
  frame writes it under the index after the counter of \<open>s'\<close>, which is strictly
  greater than the index the failed frame consumed. The counter is a 64-bit
  \<open>size_t\<close>; the run is taken to be shorter than \<open>2\<^sup>6\<^sup>3\<close> passes, so that it does
  not wrap around.
\<close>

theorem failed_write_consumes_index:
  assumes run: "main fs procs permitted ts = Running s"
    and found: "\<exists>w \<in> set (windowInfos t).
                  ownerPID w = safariPID s \<and> windowName w = Some title \<and> cstring w"
    and failed: "\<not> SaveCGImageToPNG True (destination t) (finalized t)"
    and later: "main fs procs permitted (ts @ t # us) = Running s'"
    and found': "\<exists>w \<in> set (windowInfos t').
                  ownerPID w = safariPID s' \<and> windowName w = Some title \<and> cstring w"
    and saved': "SaveCGImageToPNG True (destination t') (finalized t')"
    and short: "length ts + length us < 2 ^ 63"
  shows "main fs procs permitted (ts @ [t]) =
           (if pressed t = 113 then Returned 0 else Running)
             (s\<lparr>imageIndex := imageIndex s + 1, keyCode := pressed t\<rparr>) \<and>
         unat (imageIndex s + 1) = Suc (unat (imageIndex s)) \<and>
         windows_loop t' s' (windowInfos t') =
           s'\<lparr>assets := write_file (assets s') (newVersionDirectoryName s')
                             (to_string (unat (imageIndex s' + 1)) @ ''.png''),
               imageIndex := imageIndex s' + 1, keyCode := pressed t'\<rparr> \<and>
         unat (imageIndex s + 1) < unat (imageIndex s' + 1)"
proof -
  obtain s0 where s0: "main fs procs permitted [] = Running s0" and dw: "do_while s0 ts = Running s"
    using run by (rule main_Running_split)
  obtain M where ii: "findLastImageIndex fs versionDirectoryName = Inr M" and i0: "imageIndex s0 = M"
    using main_start [OF s0] by auto
  have m: "unat (imageIndex s0) \<le> 2147483647"
    using findLastImageIndex_range [OF ii] i0 by simp
  have k: "keyCode s \<noteq> 113"
    using do_while_keyCode [OF dw] main_initial_keyCode [OF s0] by simp
  have len: "length ts + length us < 9223372036854775808" using short by simp
  have cs: "unat (imageIndex s) \<le> unat (imageIndex s0) + length ts"
    using do_while_counter [OF dw] m len by simp
  have cap: "capture t s = s\<lparr>imageIndex := imageIndex s + 1, keyCode := pressed t\<rparr>"
    using failed by (simp add: capture_def Let_def)
  have wl: "windows_loop t s (windowInfos t) = capture t s"
    using found by (rule windows_loop_match)
  have "main fs procs permitted (ts @ [t]) = do_while s0 (ts @ [t])"
    using s0 by (rule main_enters_loop)
  also have "\<dots> = do_while s [t]" by (simp add: do_while_append dw)
  also have "\<dots> = (if pressed t = 113 then Returned 0 else Running) (capture t s)"
    by (simp add: Let_def wl capture_fields)
  finally have 1: "main fs procs permitted (ts @ [t]) =
           (if pressed t = 113 then Returned 0 else Running)
             (s\<lparr>imageIndex := imageIndex s + 1, keyCode := pressed t\<rparr>)"
    by (simp only: cap)
  have 2: "unat (imageIndex s + 1) = Suc (unat (imageIndex s))"
    using unat_increment [of "imageIndex s"] cs m len by simp
  have "do_while s0 (ts @ t # us) = Running s'"
    using later main_enters_loop [OF s0] by simp
  then have "do_while s (t # us) = Running s'" by (simp add: do_while_append dw)
  then have dw': "do_while (capture t s) us = Running s'"
    by (simp add: Let_def wl split: if_splits)
  have c1: "unat (imageIndex (capture t s)) = Suc (unat (imageIndex s))"
    using 2 by (simp add: capture_fields)
  have cs': "unat (imageIndex (capture t s)) \<le> unat (imageIndex s') \<and>
             unat (imageIndex s') \<le> unat (imageIndex (capture t s)) + length us"
    using do_while_counter [OF dw'] c1 cs m len by simp
  have 4: "unat (imageIndex s + 1) < unat (imageIndex s' + 1)"
    using unat_increment [of "imageIndex s'"] cs' c1 cs m len 2 by simp
  have "windows_loop t' s' (windowInfos t') = capture t' s'"
    using found' by (rule windows_loop_match)
  then have 3: "windows_loop t' s' (windowInfos t') =
           s'\<lparr>assets := write_file (assets s') (newVersionDirectoryName s')
                             (to_string (unat (imageIndex s' + 1)) @ ''.png''),
               imageIndex := imageIndex s' + 1, keyCode := pressed t'\<rparr>"
    using saved' by (simp add: capture_def Let_def)
  show ?thesis using 1 2 3 4 by simp
qed

text \<open>
  Start-up on \<open>ver1\<close> with two images. The first frame cannot be finalized and
  consumes index 3; after a pass without the window, the next frame is written as
  \<open>ver2/4.png\<close>.
\<close>

theorem failed_write_consumes_index_witness:
  "main (Some (Directory [(''ver1'', Directory [(''1.png'', RegularFile), (''2.png'', RegularFile)])]))
        [(501, Some ''Safari'')] True
        ([] @ [\<lparr>windowInfos = [\<lparr>ownerPID = 501, windowName = Some title, cstring = True, windowNumber = 7\<rparr>],
                  destination = True, finalized = False, pressed = 97\<rparr>])
   = Running \<lparr>assets = [(''ver1'', Directory [(''1.png'', RegularFile), (''2.png'', RegularFile)]),
                          (''ver2'', Directory [])],
                newVersionDirectoryName = ''ver2'', imageIndex = 3, safariPID = 501, keyCode = 97\<rparr> \<and>
   windows_loop
     \<lparr>windowInfos = [\<lparr>ownerPID = 501, windowName = Some title, cstring = True, windowNumber = 7\<rparr>],
       destination = True, finalized = True, pressed = 98\<rparr>
     \<lparr>assets = [(''ver1'', Directory [(''1.png'', RegularFile), (''2.png'', RegularFile)]),
                (''ver2'', Directory [])],
      newVersionDirectoryName = ''ver2'', imageIndex = 3, safariPID = 501, keyCode = 97\<rparr>
     [\<lparr>ownerPID = 501, windowName = Some title, cstring = True, windowNumber = 7\<rparr>]
   = \<lparr>assets = [(''ver1'', Directory [(''1.png'', RegularFile), (''2.png'', RegularFile)]),
                (''ver2'', Directory [(''4.png'', RegularFile)])],
      newVersionDirectoryName = ''ver2'', imageIndex = 4, safariPID = 501, keyCode = 98\<rparr> \<and>
   unat (3 :: size_t) < unat (4 :: size_t)"
proof -
  let ?es = "[(''ver1'', Directory [(''1.png'', RegularFile), (''2.png'', RegularFile)])]"
  let ?fs = "Some (Directory ?es)"
  let ?procs = "[(501, Some ''Safari'')]"
  let ?ws = "[\<lparr>ownerPID = 501, windowName = Some title, cstring = True, windowNumber = 7\<rparr>]"
  let ?t = "\<lparr>windowInfos = ?ws, destination = True, finalized = False, pressed = 97\<rparr>"
  let ?u = "\<lparr>windowInfos = [], destination = True, finalized = True, pressed = 0\<rparr>"
  let ?t' = "\<lparr>windowInfos = ?ws, destination = True, finalized = True, pressed = 98\<rparr>"
  let ?s = "\<lparr>assets = ?es @ [(''ver2'', Directory [])], newVersionDirectoryName = ''ver2'',
             imageIndex = 2, safariPID = 501, keyCode = - 1\<rparr>"
  let ?s' = "\<lparr>assets = ?es @ [(''ver2'', Directory [])], newVersionDirectoryName = ''ver2'',
              imageIndex = 3, safariPID = 501, keyCode = 97\<rparr>"
  have run: "main ?fs ?procs True [] = Running ?s"
    by code_simp
  have found: "\<exists>w \<in> set (windowInfos ?t).
                  ownerPID w = safariPID ?s \<and> windowName w = Some title \<and> cstring w"
    by simp
  have failed: "\<not> SaveCGImageToPNG True (destination ?t) (finalized ?t)"
    by (simp add: SaveCGImageToPNG_def)
  have later: "main ?fs ?procs True ([] @ ?t # [?u]) = Running ?s'"
    by code_simp
  have found': "\<exists>w \<in> set (windowInfos ?t').
                  ownerPID w = safariPID ?s' \<and> windowName w = Some title \<and> cstring w"
    by simp
  have saved': "SaveCGImageToPNG True (destination ?t') (finalized ?t')"
    by (simp add: SaveCGImageToPNG_def)
  have short: "length ([] :: tick list) + length [?u] < 2 ^ 63"
    by simp
  have fl: "to_string 4 = ''4''"
    by code_simp
  have wf: "write_file [(''ver1'', Directory [(''1.png'', RegularFile), (''2.png'', RegularFile)]),
                         (''ver2'', Directory [])] ''ver2'' ''4.png'' =
              [(''ver1'', Directory [(''1.png'', RegularFile), (''2.png'', RegularFile)]),
               (''ver2'', Directory [(''4.png'', RegularFile)])]"
    by code_simp
  show ?thesis
    using failed_write_consumes_index [OF run found failed later found' saved' short]
    by (simp add: fl wf)
qed

section \<open>The path of the last version directory\<close>

text \<open>
  Claim C10, as amended. Let the prefix be free of regular-expression
  metacharacters, let the assets directory have at least one child directory
  named prefix followed by decimal digits, every such digit string denoting at
  most \<open>INT_MAX\<close> and written without a superfluous leading zero (it is \<open>0\<close> or
  does not start with \<open>0\<close>), as are all names the program itself creates. Then the
  folder that \<open>findLastVersionDirectory\<close> names is one of those directories: it
  exists under the assets directory, and no matching directory carries a greater
  number.
\<close>

theorem findLastVersionDirectory_exists:
  assumes ord: "ordinary p"
    and ex: "\<exists>ds sub. ds \<noteq> [] \<and> list_all isdigit ds \<and> (p @ ds, Directory sub) \<in> set es"
    and rng: "\<forall>ds sub. ds \<noteq> [] \<and> list_all isdigit ds \<and> (p @ ds, Directory sub) \<in> set es
                \<longrightarrow> int (decimal ds) \<le> INT_MAX"
    and canon: "\<forall>ds sub. ds \<noteq> [] \<and> list_all isdigit ds \<and> (p @ ds, Directory sub) \<in> set es
                \<longrightarrow> ds = ''0'' \<or> hd ds \<noteq> CHR ''0''"
  shows "\<exists>ds sub. findLastVersionDirectory (Some (Directory es)) p = Inr (p @ ds) \<and>
           ds \<noteq> [] \<and> list_all isdigit ds \<and> (p @ ds, Directory sub) \<in> set es \<and>
           (\<forall>ds' sub'. ds' \<noteq> [] \<and> list_all isdigit ds' \<and> (p @ ds', Directory sub') \<in> set es
              \<longrightarrow> decimal ds' \<le> decimal ds)"
proof -
  obtain w where w: "findLastVersionIndex (Some (Directory es)) p = Inr w"
    and att: "\<exists>ds sub. ds \<noteq> [] \<and> list_all isdigit ds \<and> (p @ ds, Directory sub) \<in> set es \<and>
              unat w = decimal ds"
    and ub: "\<forall>ds sub. ds \<noteq> [] \<and> list_all isdigit ds \<and> (p @ ds, Directory sub) \<in> set es
              \<longrightarrow> decimal ds \<le> unat w"
    using version_index_resolved [OF ex rng] by blast
  obtain ds sub where d: "ds \<noteq> []" "list_all isdigit ds" and m: "(p @ ds, Directory sub) \<in> set es"
    and u: "unat w = decimal ds"
    using att by blast
  have "ds = ''0'' \<or> hd ds \<noteq> CHR ''0''" using canon d m by blast
  then have "to_string (unat w) = ds" using d u by (simp add: to_string_decimal)
  then have "findLastVersionDirectory (Some (Directory es)) p = Inr (p @ ds)"
    using w by (simp add: findLastVersionDirectory_def)
  then show ?thesis using d m ub u by auto
qed

text \<open>
  Three version directories and a regular file of a greater number: the folder
  named is \<open>ver12\<close>.
\<close>

theorem findLastVersionDirectory_exists_witness:
  "\<exists>sub. findLastVersionDirectory (Some (Directory
      [(''ver1'', Directory []), (''ver12'', Directory [(''1.png'', RegularFile)]),
       (''ver99'', RegularFile), (''ver3'', Directory [])])) ''ver'' = Inr ''ver12'' \<and>
     (''ver12'', Directory sub) \<in> set
      [(''ver1'', Directory []), (''ver12'', Directory [(''1.png'', RegularFile)]),
       (''ver99'', RegularFile), (''ver3'', Directory [])]"
proof -
  let ?es = "[(''ver1'', Directory []), (''ver12'', Directory [(''1.png'', RegularFile)]),
       (''ver99'', RegularFile), (''ver3'', Directory [])]"
  have ex: "\<exists>ds sub. ds \<noteq> [] \<and> list_all isdigit ds \<and> (''ver'' @ ds, Directory sub) \<in> set ?es"
    by (intro exI [of _ "''12''"] exI [of _ "[(''1.png'', RegularFile)]"]) (simp add: isdigit_def)
  have rng: "\<forall>ds sub. ds \<noteq> [] \<and> list_all isdigit ds \<and> (''ver'' @ ds, Directory sub) \<in> set ?es
                \<longrightarrow> int (decimal ds) \<le> INT_MAX"
    by (auto simp: decimal_def digit_value_def INT_MAX_def)
  have canon: "\<forall>ds sub. ds \<noteq> [] \<and> list_all isdigit ds \<and> (''ver'' @ ds, Directory sub) \<in> set ?es
                \<longrightarrow> ds = ''0'' \<or> hd ds \<noteq> CHR ''0''"
    by auto
  obtain ds sub where f: "findLastVersionDirectory (Some (Directory ?es)) ''ver'' = Inr (''ver'' @ ds)"
    and m: "(''ver'' @ ds, Directory sub) \<in> set ?es"
    using findLastVersionDirectory_exists [OF ordinary_ver ex rng canon] by blast
  have "findLastVersionDirectory (Some (Directory ?es)) ''ver'' = Inr ''ver12''"
    by code_simp
  then have "''ver'' @ ds = ''ver12''" using f by simp
  then show ?thesis using f m by auto
qed

text \<open>
  A version directory written with a leading zero: the folder named does not
  exist under the assets directory.
\<close>

theorem findLastVersionDirectory_exists_counterexample:
  "findLastVersionDirectory (Some (Directory [(''ver01'', Directory [])])) ''ver'' = Inr ''ver1'' \<and>
   child (Some (Directory [(''ver01'', Directory [])])) ''ver1'' = None"
  by code_simp

end
